theory Spec2Isabelle
  imports Complex_Main
begin

section \<open>Adsorption-site generator for slabs (add\_adsorbate.py)\<close>

text \<open>
  The program works on float64 numpy arrays. Coordinates, distances and angles are
  modelled as \<^typ>\<open>real\<close> and the arithmetic of the source as exact arithmetic, with
  one exception: for the Top pass, where a property depends on the rounding of a sum, the
  float64 operations are modelled as well (\<open>top_loop_f64\<close>). A NaN or an infinity that
  the source could produce is a branch of its own. Exceptions are values of
  \<open>error + 'a\<close>; log records are returned with the result.
\<close>

subsection \<open>Vectors\<close>

type_synonym vec3 = "real \<times> real \<times> real"

fun vx :: "vec3 \<Rightarrow> real" where "vx (x, y, z) = x"
fun vy :: "vec3 \<Rightarrow> real" where "vy (x, y, z) = y"
fun vz :: "vec3 \<Rightarrow> real" where "vz (x, y, z) = z"

fun vadd :: "vec3 \<Rightarrow> vec3 \<Rightarrow> vec3" where
  "vadd (a, b, c) (x, y, z) = (a + x, b + y, c + z)"

fun vsub :: "vec3 \<Rightarrow> vec3 \<Rightarrow> vec3" where
  "vsub (a, b, c) (x, y, z) = (a - x, b - y, c - z)"

fun smul :: "real \<Rightarrow> vec3 \<Rightarrow> vec3" where
  "smul k (x, y, z) = (k * x, k * y, k * z)"

fun sdiv :: "vec3 \<Rightarrow> real \<Rightarrow> vec3" where
  "sdiv (x, y, z) k = (x / k, y / k, z / k)"

fun dot :: "vec3 \<Rightarrow> vec3 \<Rightarrow> real" where
  "dot (a, b, c) (x, y, z) = a * x + b * y + c * z"

text \<open>\<open>np.cross\<close> of two 3-vectors.\<close>

fun cross :: "vec3 \<Rightarrow> vec3 \<Rightarrow> vec3" where
  "cross (a, b, c) (x, y, z) = (b * z - c * y, c * x - a * z, a * y - b * x)"

text \<open>\<open>np.linalg.norm\<close> of a 3-vector.\<close>

definition norm3 :: "vec3 \<Rightarrow> real" where
  "norm3 v = sqrt (dot v v)"

subsection \<open>Errors, log records, structures\<close>

text \<open>
  The exceptions of the source and its libraries. \<open>NotANumber\<close> is not an exception: it
  marks the places where the source would go on with NaN or infinite coordinates, which the
  reals do not have.
\<close>

datatype error = IndexError | ValueError | KeyError | ZeroDivisionError | QhullError | NotANumber

datatype log_level = INFO | WARNING

text \<open>
  The messages of the source are f-strings over floats; a log record keeps the level and
  the values the message is formatted from.
\<close>

datatype log_msg =
    Rotated real
  | PercentileCandidates real real nat
  | TooFewCandidates
  | HullSurfaceAtoms nat
  | SitesGenerated nat
  | Wrote string
  | NoSurfaceAtoms string

type_synonym log_record = "log_level \<times> log_msg"

record atom =
  symbol :: string
  position :: vec3

text \<open>An \<open>ase.Atoms\<close> object: its atoms in order, the three cell vectors, the periodicity flags.\<close>

record Atoms =
  atom_list :: "atom list"
  cell :: "vec3 \<times> vec3 \<times> vec3"
  pbc :: "bool \<times> bool \<times> bool"

definition get_positions :: "Atoms \<Rightarrow> vec3 list" where
  "get_positions slab = map position (atom_list slab)"

definition get_cell :: "Atoms \<Rightarrow> vec3 \<times> vec3 \<times> vec3" where
  "get_cell slab = cell slab"

definition get_pbc :: "Atoms \<Rightarrow> bool \<times> bool \<times> bool" where
  "get_pbc slab = pbc slab"

text \<open>
  \<open>a[i]\<close> for a numpy array or Python list of length \<open>n\<close> and an integer \<open>i\<close>:
  the element at \<open>i\<close> when \<open>0 \<le> i < n\<close>, the element at \<open>n + i\<close> when
  \<open>-n \<le> i < 0\<close>, and \<open>IndexError\<close> otherwise.
\<close>

definition getitem :: "'a list \<Rightarrow> int \<Rightarrow> error + 'a" where
  "getitem a i =
     (if 0 \<le> i \<and> i < int (length a) then Inr (a ! nat i)
      else if - int (length a) \<le> i \<and> i < 0 then Inr (a ! nat (int (length a) + i))
      else Inl IndexError)"

subsection \<open>Site labels\<close>

text \<open>Python's \<open>str\<close> of an integer, as the f-strings of the labels use it.\<close>

definition digit_char :: "nat \<Rightarrow> char" where
  "digit_char d = ''0123456789'' ! d"

fun str_nat :: "nat \<Rightarrow> string" where
  "str_nat n = (if n < 10 then [digit_char n] else str_nat (n div 10) @ [digit_char (n mod 10)])"

declare str_nat.simps [simp del]

definition str_int :: "int \<Rightarrow> string" where
  "str_int i = (if i < 0 then CHR ''-'' # str_nat (nat (- i)) else str_nat (nat i))"

definition top_label :: "int \<Rightarrow> string" where
  "top_label idx = ''Top_'' @ str_int idx"

definition bridge_label :: "int \<Rightarrow> int \<Rightarrow> string" where
  "bridge_label idx1 idx2 = ''Bridge_'' @ str_int idx1 @ ''_'' @ str_int idx2"

definition hollow_label :: "int \<Rightarrow> int \<Rightarrow> int \<Rightarrow> string" where
  "hollow_label idx1 idx2 idx3 =
     ''Hollow_'' @ str_int idx1 @ ''_'' @ str_int idx2 @ ''_'' @ str_int idx3"

type_synonym site = "string \<times> vec3"

subsection \<open>generate\_adsorption\_sites\<close>

text \<open>
  \<open>ase.geometry.find_mic(v, cell, pbc)\<close> is a library routine: it returns the
  minimum-image vector of \<open>v\<close> and its length. It is a parameter of the model.
\<close>

type_synonym find_mic_fn = "vec3 \<Rightarrow> vec3 \<times> vec3 \<times> vec3 \<Rightarrow> bool \<times> bool \<times> bool \<Rightarrow> vec3 \<times> real"

definition normal :: vec3 where
  "normal = (0, 0, 1)"

text \<open>
  The Top loop: \<open>for idx in surface_atoms\<close>. The sum \<open>pos[idx] + normal*ads_dist\<close> is
  exact here; what float64 rounding makes of it is the subject of \<open>top_loop_f64\<close> below.
\<close>

fun top_loop :: "vec3 list \<Rightarrow> real \<Rightarrow> real \<Rightarrow> int list \<Rightarrow> error + site list" where
  "top_loop pos ads_dist margin [] = Inr []"
| "top_loop pos ads_dist margin (idx # rest) =
     (case getitem pos idx of
        Inl e \<Rightarrow> Inl e
      | Inr p \<Rightarrow>
          (let bz = vz p;
               site = vadd p (smul ads_dist normal)
           in case top_loop pos ads_dist margin rest of
                Inl e \<Rightarrow> Inl e
              | Inr sites \<Rightarrow>
                  Inr (if vz site > bz + margin then (top_label idx, site) # sites else sites)))"

text \<open>The Bridge loops: \<open>idx1\<close> over the list, \<open>idx2\<close> over the elements after it.\<close>

fun bridge_inner ::
  "find_mic_fn \<Rightarrow> Atoms \<Rightarrow> real \<Rightarrow> real \<Rightarrow> real \<Rightarrow> int \<Rightarrow> int list \<Rightarrow> error + site list" where
  "bridge_inner find_mic slab ads_dist dist_thr margin idx1 [] = Inr []"
| "bridge_inner find_mic slab ads_dist dist_thr margin idx1 (idx2 # rest) =
     (case getitem (get_positions slab) idx2 of
        Inl e \<Rightarrow> Inl e
      | Inr p2 \<Rightarrow>
     (case getitem (get_positions slab) idx1 of
        Inl e \<Rightarrow> Inl e
      | Inr p1 \<Rightarrow>
          (let (vec, d) = find_mic (vsub p2 p1) (get_cell slab) (get_pbc slab);
               midpoint = vadd p1 (sdiv vec 2);
               site = vadd midpoint (smul ads_dist normal)
           in case bridge_inner find_mic slab ads_dist dist_thr margin idx1 rest of
                Inl e \<Rightarrow> Inl e
              | Inr sites \<Rightarrow>
                  Inr (if d \<le> dist_thr \<and> vz site > max (vz p1) (vz p2) + margin
                       then (bridge_label idx1 idx2, site) # sites else sites))))"

fun bridge_loop ::
  "find_mic_fn \<Rightarrow> Atoms \<Rightarrow> real \<Rightarrow> real \<Rightarrow> real \<Rightarrow> int list \<Rightarrow> error + site list" where
  "bridge_loop find_mic slab ads_dist dist_thr margin [] = Inr []"
| "bridge_loop find_mic slab ads_dist dist_thr margin (idx1 # rest) =
     (case bridge_inner find_mic slab ads_dist dist_thr margin idx1 rest of
        Inl e \<Rightarrow> Inl e
      | Inr here \<Rightarrow>
          (case bridge_loop find_mic slab ads_dist dist_thr margin rest of
             Inl e \<Rightarrow> Inl e
           | Inr sites \<Rightarrow> Inr (here @ sites)))"

text \<open>
  The Hollow loops: \<open>i < j < k\<close> over the positions of the list, as recursion over the
  elements after \<open>idx1\<close> and after \<open>idx2\<close>.
\<close>

fun hollow_k ::
  "find_mic_fn \<Rightarrow> Atoms \<Rightarrow> real \<Rightarrow> real \<Rightarrow> real \<Rightarrow> int \<Rightarrow> int \<Rightarrow> int list \<Rightarrow> error + site list" where
  "hollow_k find_mic slab ads_dist dist_thr margin idx1 idx2 [] = Inr []"
| "hollow_k find_mic slab ads_dist dist_thr margin idx1 idx2 (idx3 # rest) =
     (case getitem (get_positions slab) idx2 of
        Inl e \<Rightarrow> Inl e
      | Inr p2 \<Rightarrow>
     (case getitem (get_positions slab) idx1 of
        Inl e \<Rightarrow> Inl e
      | Inr p1 \<Rightarrow>
     (case getitem (get_positions slab) idx3 of
        Inl e \<Rightarrow> Inl e
      | Inr p3 \<Rightarrow>
          (let (v12, d12) = find_mic (vsub p2 p1) (get_cell slab) (get_pbc slab);
               (v13, d13) = find_mic (vsub p3 p1) (get_cell slab) (get_pbc slab);
               (v23, d23) = find_mic (vsub p3 p2) (get_cell slab) (get_pbc slab);
               centroid = vadd p1 (sdiv (vadd v12 v13) 3);
               site = vadd centroid (smul ads_dist normal)
           in case hollow_k find_mic slab ads_dist dist_thr margin idx1 idx2 rest of
                Inl e \<Rightarrow> Inl e
              | Inr sites \<Rightarrow>
                  Inr (if d12 \<le> dist_thr \<and> d13 \<le> dist_thr \<and> d23 \<le> dist_thr
                          \<and> vz site > max (max (vz p1) (vz p2)) (vz p3) + margin
                       then (hollow_label idx1 idx2 idx3, site) # sites else sites)))))"

fun hollow_j ::
  "find_mic_fn \<Rightarrow> Atoms \<Rightarrow> real \<Rightarrow> real \<Rightarrow> real \<Rightarrow> int \<Rightarrow> int list \<Rightarrow> error + site list" where
  "hollow_j find_mic slab ads_dist dist_thr margin idx1 [] = Inr []"
| "hollow_j find_mic slab ads_dist dist_thr margin idx1 (idx2 # rest) =
     (case hollow_k find_mic slab ads_dist dist_thr margin idx1 idx2 rest of
        Inl e \<Rightarrow> Inl e
      | Inr here \<Rightarrow>
          (case hollow_j find_mic slab ads_dist dist_thr margin idx1 rest of
             Inl e \<Rightarrow> Inl e
           | Inr sites \<Rightarrow> Inr (here @ sites)))"

fun hollow_i ::
  "find_mic_fn \<Rightarrow> Atoms \<Rightarrow> real \<Rightarrow> real \<Rightarrow> real \<Rightarrow> int list \<Rightarrow> error + site list" where
  "hollow_i find_mic slab ads_dist dist_thr margin [] = Inr []"
| "hollow_i find_mic slab ads_dist dist_thr margin (idx1 # rest) =
     (case hollow_j find_mic slab ads_dist dist_thr margin idx1 rest of
        Inl e \<Rightarrow> Inl e
      | Inr here \<Rightarrow>
          (case hollow_i find_mic slab ads_dist dist_thr margin rest of
             Inl e \<Rightarrow> Inl e
           | Inr sites \<Rightarrow> Inr (here @ sites)))"

definition generate_adsorption_sites ::
  "find_mic_fn \<Rightarrow> Atoms \<Rightarrow> int list \<Rightarrow> real \<Rightarrow> real \<Rightarrow> real
     \<Rightarrow> log_record list \<times> (error + site list)" where
  "generate_adsorption_sites find_mic slab surface_atoms ads_dist dist_thr margin =
     (case top_loop (get_positions slab) ads_dist margin surface_atoms of
        Inl e \<Rightarrow> ([], Inl e)
      | Inr tops \<Rightarrow>
     (case bridge_loop find_mic slab ads_dist dist_thr margin surface_atoms of
        Inl e \<Rightarrow> ([], Inl e)
      | Inr bridges \<Rightarrow>
     (case hollow_i find_mic slab ads_dist dist_thr margin surface_atoms of
        Inl e \<Rightarrow> ([], Inl e)
      | Inr hollows \<Rightarrow>
          (let sites = tops @ bridges @ hollows
           in ([(INFO, SitesGenerated (length sites))], Inr sites)))))"

text \<open>
  What it means for a labelled site to be the Bridge site of the pair \<open>(idx1, idx2)\<close>, and
  the Hollow site of the triple \<open>(idx1, idx2, idx3)\<close>: the conditions under which the loops
  above append it.
\<close>

definition bridge_of ::
  "find_mic_fn \<Rightarrow> Atoms \<Rightarrow> real \<Rightarrow> real \<Rightarrow> real \<Rightarrow> int \<Rightarrow> int \<Rightarrow> site \<Rightarrow> bool" where
  "bridge_of find_mic slab ads_dist dist_thr margin idx1 idx2 st \<longleftrightarrow>
     (\<exists>p1 p2 vec d.
        getitem (get_positions slab) idx1 = Inr p1 \<and>
        getitem (get_positions slab) idx2 = Inr p2 \<and>
        find_mic (vsub p2 p1) (get_cell slab) (get_pbc slab) = (vec, d) \<and>
        d \<le> dist_thr \<and>
        fst st = bridge_label idx1 idx2 \<and>
        snd st = vadd (vadd p1 (sdiv vec 2)) (smul ads_dist normal) \<and>
        vz (snd st) > max (vz p1) (vz p2) + margin)"

definition hollow_of ::
  "find_mic_fn \<Rightarrow> Atoms \<Rightarrow> real \<Rightarrow> real \<Rightarrow> real \<Rightarrow> int \<Rightarrow> int \<Rightarrow> int \<Rightarrow> site \<Rightarrow> bool" where
  "hollow_of find_mic slab ads_dist dist_thr margin idx1 idx2 idx3 st \<longleftrightarrow>
     (\<exists>p1 p2 p3 v12 d12 v13 d13 v23 d23.
        getitem (get_positions slab) idx1 = Inr p1 \<and>
        getitem (get_positions slab) idx2 = Inr p2 \<and>
        getitem (get_positions slab) idx3 = Inr p3 \<and>
        find_mic (vsub p2 p1) (get_cell slab) (get_pbc slab) = (v12, d12) \<and>
        find_mic (vsub p3 p1) (get_cell slab) (get_pbc slab) = (v13, d13) \<and>
        find_mic (vsub p3 p2) (get_cell slab) (get_pbc slab) = (v23, d23) \<and>
        d12 \<le> dist_thr \<and> d13 \<le> dist_thr \<and> d23 \<le> dist_thr \<and>
        fst st = hollow_label idx1 idx2 idx3 \<and>
        snd st = vadd (vadd p1 (sdiv (vadd v12 v13) 3)) (smul ads_dist normal) \<and>
        vz (snd st) > max (max (vz p1) (vz p2)) (vz p3) + margin)"

subsection \<open>align\_slab\_to\_z\<close>

text \<open>
  \<open>Atoms.get_center_of_mass()\<close>: the mass-weighted mean of the positions. The masses come
  from ASE's table of atomic masses, a parameter \<open>mass\<close> of the model, keyed by symbol.
\<close>

definition total_mass :: "(string \<Rightarrow> real) \<Rightarrow> Atoms \<Rightarrow> real" where
  "total_mass mass slab = sum_list (map (\<lambda>a. mass (symbol a)) (atom_list slab))"

definition get_center_of_mass :: "(string \<Rightarrow> real) \<Rightarrow> Atoms \<Rightarrow> vec3" where
  "get_center_of_mass mass slab =
     sdiv (foldr vadd (map (\<lambda>a. smul (mass (symbol a)) (position a)) (atom_list slab)) (0, 0, 0))
          (total_mass mass slab)"

text \<open>
  The rotation formula of \<open>Atoms.rotate\<close>, for the cosine \<open>c\<close> and sine \<open>s\<close> of the
  angle and the unit axis \<open>v\<close>:
  \<open>c * p - cross(p, s * v) + dot(p, v) * (1 - c) * v\<close>.
\<close>

definition rotate_vec :: "real \<Rightarrow> real \<Rightarrow> vec3 \<Rightarrow> vec3 \<Rightarrow> vec3" where
  "rotate_vec c s v p =
     vadd (vsub (smul c p) (cross p (smul s v))) (smul (dot p v) (smul (1 - c) v))"

text \<open>
  \<open>Atoms.rotate(a, v, center='COM', rotate_cell=True)\<close> of ASE, a library routine. Its
  angle \<open>a\<close> is in degrees: the routine multiplies it by \<open>pi / 180\<close> before taking the
  cosine and sine. It raises \<open>ZeroDivisionError\<close> for an axis of norm 0, divides the axis
  by its norm, rotates the positions about the centre of mass and the cell vectors about
  the origin.
\<close>

definition rotate_atoms :: "(string \<Rightarrow> real) \<Rightarrow> Atoms \<Rightarrow> real \<Rightarrow> vec3 \<Rightarrow> error + Atoms" where
  "rotate_atoms mass slab a v =
     (let normv = norm3 v
      in if normv = 0 then Inl ZeroDivisionError
         else if atom_list slab \<noteq> [] \<and> total_mass mass slab = 0 then Inl NotANumber
         else
           (let a' = a * (pi / 180);
                v' = sdiv v normv;
                c = cos a';
                s = sin a';
                center = get_center_of_mass mass slab;
                (c0, c1, c2) = get_cell slab
            in Inr (slab
                 \<lparr>atom_list :=
                    map (\<lambda>atm. atm\<lparr>position :=
                           vadd (rotate_vec c s v' (vsub (position atm) center)) center\<rparr>)
                        (atom_list slab),
                  cell := (rotate_vec c s v' c0, rotate_vec c s v' c1, rotate_vec c s v' c2)\<rparr>)))"

text \<open>\<open>np.clip(x, lo, hi)\<close>.\<close>

definition clip :: "real \<Rightarrow> real \<Rightarrow> real \<Rightarrow> real" where
  "clip x lo hi = min (max x lo) hi"

text \<open>
  The source mutates the slab in place and returns it; the model returns the new value.
  When \<open>a \<times> b\<close> has norm 0 the division makes \<open>n\<close> NaN, both comparisons of the source
  are false and the slab is returned as it is.
\<close>

definition align_slab_to_z ::
  "(string \<Rightarrow> real) \<Rightarrow> Atoms \<Rightarrow> log_record list \<times> (error + Atoms)" where
  "align_slab_to_z mass slab =
     (let (c0, c1, c2) = get_cell slab;
          n0 = cross c0 c1
      in if norm3 n0 = 0 then ([], Inr slab)
         else
           (let n1 = sdiv n0 (norm3 n0);
                n = (if vz n1 < 0 then smul (- 1) n1 else n1);
                target = (0, 0, 1);
                cosang = clip (dot n target) (- 1) 1;
                angle = arccos cosang
            in if angle > 1 / 10 ^ 6
               then
                 (let axis0 = cross n target
                  in if norm3 axis0 = 0 then ([], Inl NotANumber)
                     else
                       (case rotate_atoms mass slab angle (sdiv axis0 (norm3 axis0)) of
                          Inl e \<Rightarrow> ([], Inl e)
                        | Inr slab' \<Rightarrow> ([(INFO, Rotated (angle * (180 / pi)))], Inr slab')))
               else ([], Inr slab)))"

text \<open>The normal that the specification recomputes: \<open>cellVector0 \<times> cellVector1\<close>.\<close>

definition cell_normal :: "Atoms \<Rightarrow> vec3" where
  "cell_normal slab = (let (c0, c1, c2) = get_cell slab in cross c0 c1)"

subsection \<open>identify\_surface\_atoms\_via\_hull\<close>

text \<open>
  \<open>np.percentile(a, q)\<close> with the default linear interpolation. numpy first checks
  \<open>0 \<le> q \<le> 100\<close> and raises \<open>ValueError\<close> otherwise. For \<open>n\<close> values sorted
  ascending, the virtual index is \<open>(n - 1) * q / 100\<close>; the result interpolates between
  the order statistics below and above it. An empty array gives no number (numpy raises or
  yields NaN, depending on its version); the model returns an error there.
\<close>

definition percentile :: "real list \<Rightarrow> real \<Rightarrow> error + real" where
  "percentile a q =
     (if q < 0 \<or> 100 < q then Inl ValueError
      else if a = [] then Inl IndexError
      else
        (let s = sort a;
             n = length a;
             h = (real n - 1) * (q / 100);
             lo = nat \<lfloor>h\<rfloor>;
             hi = min (lo + 1) (n - 1);
             g = h - real lo
         in Inr (s ! lo + (s ! hi - s ! lo) * g)))"

text \<open>\<open>np.where(zs >= z_th)[0]\<close>: the indices that pass, ascending.\<close>

definition candidates :: "real list \<Rightarrow> real \<Rightarrow> nat list" where
  "candidates zs z_th = filter (\<lambda>i. zs ! i \<ge> z_th) [0..<length zs]"

text \<open>
  \<open>scipy.spatial.ConvexHull(xy).vertices\<close> is a library routine (Qhull): it returns
  indices into \<open>xy\<close>, or raises \<open>QhullError\<close> on input it cannot handle. It is a
  parameter of the model.
\<close>

type_synonym hull_fn = "(real \<times> real) list \<Rightarrow> error + nat list"

text \<open>\<open>cand[hull.vertices]\<close>: indexing an array with an array of indices.\<close>

definition take_indices :: "'a list \<Rightarrow> nat list \<Rightarrow> error + 'a list" where
  "take_indices a vs =
     (if \<forall>v \<in> set vs. v < length a then Inr (map (\<lambda>v. a ! v) vs) else Inl IndexError)"

definition identify_surface_atoms_via_hull ::
  "hull_fn \<Rightarrow> Atoms \<Rightarrow> real \<Rightarrow> log_record list \<times> (error + int list)" where
  "identify_surface_atoms_via_hull convex_hull slab q =
     (let pos = get_positions slab;
          zs = map vz pos
      in case percentile zs q of
           Inl e \<Rightarrow> ([], Inl e)
         | Inr z_th \<Rightarrow>
             (let cand = candidates zs z_th;
                  info = (INFO, PercentileCandidates q z_th (length cand))
              in if length cand < 3
                 then ([info, (WARNING, TooFewCandidates)], Inr (map int cand))
                 else
                   (let xy = map (\<lambda>i. (vx (pos ! i), vy (pos ! i))) cand
                    in case convex_hull xy of
                         Inl e \<Rightarrow> ([info], Inl e)
                       | Inr vertices \<Rightarrow>
                           (case take_indices cand vertices of
                              Inl e \<Rightarrow> ([info], Inl e)
                            | Inr surf \<Rightarrow>
                                ([info, (INFO, HullSurfaceAtoms (length surf))],
                                 Inr (map int surf))))))"

text \<open>The candidate set of the specification: the atom indices with \<open>z\<^sub>i \<ge> z_th\<close>.\<close>

definition candidate_set :: "Atoms \<Rightarrow> real \<Rightarrow> nat set" where
  "candidate_set slab z_th =
     {i. i < length (atom_list slab) \<and> vz (position (atom_list slab ! i)) \<ge> z_th}"

subsection \<open>add\_adsorbate\_and\_write\<close>

text \<open>
  \<open>slab.copy()\<close> makes a new object and \<open>+=\<close> changes that object in place, so the objects
  are kept in a store: a reference is an address, \<open>heap\<close> gives the value of the object
  at an address, and the addresses below \<open>next_ref\<close> are the ones in use. \<open>files\<close> is what
  \<open>ase.io.write\<close> has written (path and structure), \<open>logged\<close> the log records so far.
\<close>

record world =
  heap :: "nat \<Rightarrow> Atoms"
  next_ref :: nat
  files :: "(string \<times> Atoms) list"
  logged :: "log_record list"

text \<open>\<open>os.path.join(a, b)\<close> of two components (POSIX).\<close>

definition os_path_join :: "string \<Rightarrow> string \<Rightarrow> string" where
  "os_path_join a b =
     (if b \<noteq> [] \<and> hd b = CHR ''/'' then b
      else if a = [] \<or> last a = CHR ''/'' then a @ b
      else a @ ''/'' @ b)"

text \<open>
  \<open>Atom(ads, position=position)\<close> looks the symbol up in ASE's table of atomic numbers, a
  parameter of the model, and raises \<open>KeyError\<close> for a string that is not a symbol.
\<close>

definition add_adsorbate_and_write ::
  "(string \<Rightarrow> nat option) \<Rightarrow> world \<Rightarrow> nat \<Rightarrow> string \<Rightarrow> vec3 \<Rightarrow> string \<Rightarrow> string \<Rightarrow> string
     \<Rightarrow> world \<times> (error + unit)" where
  "add_adsorbate_and_write atomic_numbers w slab label site_position base out_dir ads =
     (let slab2 = next_ref w;
          w1 = w\<lparr>heap := (heap w)(slab2 := heap w slab), next_ref := Suc (next_ref w)\<rparr>
      in case atomic_numbers ads of
           None \<Rightarrow> (w1, Inl KeyError)
         | Some number \<Rightarrow>
             (let new_atom = \<lparr>symbol = ads, position = site_position\<rparr>;
                  old = heap w1 slab2;
                  w2 = w1\<lparr>heap := (heap w1)(slab2 := old\<lparr>atom_list := atom_list old @ [new_atom]\<rparr>)\<rparr>;
                  fname = base @ ''_'' @ label @ ''.vasp'';
                  w3 = w2\<lparr>files := files w2 @ [(os_path_join out_dir fname, heap w2 slab2)]\<rparr>
              in (w3\<lparr>logged := logged w3 @ [(INFO, Wrote fname)]\<rparr>, Inr ())))"

subsection \<open>main: from the slab to its surface atoms\<close>


subsection \<open>The Top pass in float64 arithmetic\<close>

text \<open>
  The arrays of the source hold IEEE 754 binary64 numbers, and each \<open>+\<close> and \<open>*\<close> on them
  rounds its exact result to the nearest binary64 number, ties to the even significand.
  \<open>fl64\<close> is that rounding on the reals: the unit in the last place of \<open>x\<close> is
  \<open>2\<close> to the power \<open>ulp_exp x\<close>, 52 binary places below the leading bit of \<open>x\<close> and
  never below \<open>2\<^sup>-\<^sup>1\<^sup>0\<^sup>7\<^sup>4\<close> (the subnormal spacing). A result that rounds to
  \<open>2\<^sup>1\<^sup>0\<^sup>2\<^sup>4\<close> or beyond in magnitude is an infinity in the source.
\<close>

definition round_even :: "real \<Rightarrow> int" where
  "round_even x =
     (let f = \<lfloor>x\<rfloor>;
          r = x - of_int f
      in if r < 1 / 2 then f
         else if 1 / 2 < r then f + 1
         else if even f then f else f + 1)"

definition ulp_exp :: "real \<Rightarrow> int" where
  "ulp_exp x = max \<lfloor>log 2 \<bar>x\<bar>\<rfloor> (- 1022) - 52"

definition fl64 :: "real \<Rightarrow> real" where
  "fl64 x =
     (if x = 0 then 0
      else of_int (round_even (x / 2 powr of_int (ulp_exp x))) * 2 powr of_int (ulp_exp x))"

definition f64 :: "real \<Rightarrow> error + real" where
  "f64 x = (if 2 ^ 1024 \<le> \<bar>fl64 x\<bar> then Inl NotANumber else Inr (fl64 x))"

text \<open>\<open>u * k\<close> and \<open>u + v\<close> on float64 arrays of three components.\<close>

definition smul_f64 :: "vec3 \<Rightarrow> real \<Rightarrow> error + vec3" where
  "smul_f64 u k =
     (case f64 (vx u * k) of Inl e \<Rightarrow> Inl e | Inr x \<Rightarrow>
     (case f64 (vy u * k) of Inl e \<Rightarrow> Inl e | Inr y \<Rightarrow>
     (case f64 (vz u * k) of Inl e \<Rightarrow> Inl e | Inr z \<Rightarrow> Inr (x, y, z))))"

definition vadd_f64 :: "vec3 \<Rightarrow> vec3 \<Rightarrow> error + vec3" where
  "vadd_f64 u v =
     (case f64 (vx u + vx v) of Inl e \<Rightarrow> Inl e | Inr x \<Rightarrow>
     (case f64 (vy u + vy v) of Inl e \<Rightarrow> Inl e | Inr y \<Rightarrow>
     (case f64 (vz u + vz v) of Inl e \<Rightarrow> Inl e | Inr z \<Rightarrow> Inr (x, y, z))))"

text \<open>
  The Top loop (source lines 82 to 86) with these operations:
  \<open>site = pos[idx] + normal*ads_dist\<close>, kept when \<open>site[2] > bz + margin\<close>.
\<close>

fun top_loop_f64 :: "vec3 list \<Rightarrow> real \<Rightarrow> real \<Rightarrow> int list \<Rightarrow> error + site list" where
  "top_loop_f64 pos ads_dist margin [] = Inr []"
| "top_loop_f64 pos ads_dist margin (idx # rest) =
     (case getitem pos idx of
        Inl e \<Rightarrow> Inl e
      | Inr p \<Rightarrow>
     (case smul_f64 normal ads_dist of
        Inl e \<Rightarrow> Inl e
      | Inr shift \<Rightarrow>
     (case vadd_f64 p shift of
        Inl e \<Rightarrow> Inl e
      | Inr site \<Rightarrow>
     (case f64 (vz p + margin) of
        Inl e \<Rightarrow> Inl e
      | Inr floor_z \<Rightarrow>
     (case top_loop_f64 pos ads_dist margin rest of
        Inl e \<Rightarrow> Inl e
      | Inr sites \<Rightarrow>
          Inr (if vz site > floor_z then (top_label idx, site) # sites else sites))))))"

text \<open>A real number is a float64 value when rounding leaves it as it is.\<close>

definition is_f64 :: "real \<Rightarrow> bool" where
  "is_f64 x \<longleftrightarrow> fl64 x = x \<and> \<bar>x\<bar> < 2 ^ 1024"

subsection \<open>Example inputs\<close>

text \<open>
  Two instances of the library parameter \<open>find_mic\<close>, used to run the model on concrete
  structures: without periodicity \<open>find_mic\<close> returns the vector and its length; in a
  cubic cell of edge \<open>L\<close>, periodic in all directions, each component is wrapped to the
  nearest image.
\<close>

definition find_mic_free :: find_mic_fn where
  "find_mic_free v c p = (v, norm3 v)"

definition wrap :: "real \<Rightarrow> real \<Rightarrow> real" where
  "wrap L x = x - L * of_int \<lfloor>x / L + 1 / 2\<rfloor>"

definition find_mic_cubic :: "real \<Rightarrow> find_mic_fn" where
  "find_mic_cubic L v c p =
     (let w = (wrap L (vx v), wrap L (vy v), wrap L (vz v)) in (w, norm3 w))"

definition slab_line :: Atoms where
  "slab_line = \<lparr>atom_list = [\<lparr>symbol = ''Pt'', position = (0, 0, 0)\<rparr>,
                             \<lparr>symbol = ''Pt'', position = (1, 0, 0)\<rparr>,
                             \<lparr>symbol = ''Pt'', position = (5, 0, 0)\<rparr>],
                cell = ((10, 0, 0), (0, 10, 0), (0, 0, 10)),
                pbc = (False, False, False)\<rparr>"

definition slab_straddle :: Atoms where
  "slab_straddle = \<lparr>atom_list = [\<lparr>symbol = ''Pt'', position = (1 / 2, 0, 0)\<rparr>,
                                 \<lparr>symbol = ''Pt'', position = (19 / 2, 0, 0)\<rparr>],
                    cell = ((10, 0, 0), (0, 10, 0), (0, 0, 10)),
                    pbc = (True, True, True)\<rparr>"

text \<open>
  A stand-in for the hull routine on the example inputs: Qhull raises \<open>QhullError\<close> when
  the points do not span the plane (fewer than three, or all on one line); for points in
  convex position every point is a vertex.
\<close>

definition flat :: "(real \<times> real) list \<Rightarrow> bool" where
  "flat xy = (\<forall>p \<in> set xy. \<forall>q \<in> set xy. \<forall>r \<in> set xy.
                (fst q - fst p) * (snd r - snd p) - (snd q - snd p) * (fst r - fst p) = 0)"

definition hull_convex_position :: hull_fn where
  "hull_convex_position xy =
     (if length xy < 3 \<or> flat xy then Inl QhullError else Inr [0..<length xy])"

definition slab_square :: Atoms where
  "slab_square = \<lparr>atom_list = [\<lparr>symbol = ''Pt'', position = (1 / 2, 1 / 2, - 2)\<rparr>,
                               \<lparr>symbol = ''Pt'', position = (0, 0, 0)\<rparr>,
                               \<lparr>symbol = ''Pt'', position = (1, 0, 0)\<rparr>,
                               \<lparr>symbol = ''Pt'', position = (1, 1, 0)\<rparr>,
                               \<lparr>symbol = ''Pt'', position = (0, 1, 0)\<rparr>],
                  cell = ((10, 0, 0), (0, 10, 0), (0, 0, 10)),
                  pbc = (False, False, False)\<rparr>"

text \<open>
  A slab whose first two cell vectors span the yz-plane, so that its normal is along +x;
  and a mass table for the example symbols.
\<close>

definition slab_side :: Atoms where
  "slab_side = \<lparr>atom_list = [\<lparr>symbol = ''Pt'', position = (0, 0, 0)\<rparr>],
                cell = ((0, 1, 0), (0, 0, 1), (1, 0, 0)),
                pbc = (True, True, False)\<rparr>"

definition example_mass :: "string \<Rightarrow> real" where
  "example_mass el = (if el = ''H'' then 1008 / 1000 else 195084 / 1000)"

text \<open>The part of ASE's table of atomic numbers that the examples use, and a store.\<close>

definition example_numbers :: "string \<Rightarrow> nat option" where
  "example_numbers el = (if el = ''H'' then Some 1 else if el = ''Pt'' then Some 78 else None)"

definition example_world :: world where
  "example_world = \<lparr>heap = (\<lambda>r. slab_straddle), next_ref = 1, files = [], logged = []\<rparr>"

text \<open>
  What \<open>align_slab_to_z\<close> makes of \<open>slab_side\<close>, and of that result in turn: the cell
  turned about \<open>-y\<close> by \<open>pi\<^sup>2 / 360\<close> radians, and then by \<open>psi\<close> radians more.
\<close>

definition psi :: real where
  "psi = (pi / 2 - pi * pi / 360) * (pi / 180)"

definition slab_side_aligned :: Atoms where
  "slab_side_aligned = slab_side\<lparr>cell := ((0, 1, 0),
       (- sin (pi * pi / 360), 0, cos (pi * pi / 360)),
       (cos (pi * pi / 360), 0, sin (pi * pi / 360)))\<rparr>"

definition slab_side_twice :: Atoms where
  "slab_side_twice = slab_side\<lparr>cell := ((0, 1, 0),
        (- sin (pi * pi / 360 + psi), 0, cos (pi * pi / 360 + psi)),
        (cos (pi * pi / 360 + psi), 0, sin (pi * pi / 360 + psi)))\<rparr>"

section \<open>Properties\<close>

subsection \<open>Labels determine the contributing atoms\<close>

lemma digit_char_inj: "d < 10 \<Longrightarrow> e < 10 \<Longrightarrow> digit_char d = digit_char e \<Longrightarrow> d = e"
  unfolding digit_char_def
  by (subst (asm) nth_eq_iff_index_eq) simp_all

lemma digit_char_in: "d < 10 \<Longrightarrow> digit_char d \<in> set ''0123456789''"
  unfolding digit_char_def by (rule nth_mem) simp

lemma str_nat_digits: "set (str_nat n) \<subseteq> set ''0123456789''"
proof (induction n rule: str_nat.induct)
  case (1 n)
  show ?case
  proof (cases "n < 10")
    case True
    then show ?thesis using digit_char_in [of n] by (subst str_nat.simps) simp
  next
    case False
    have "n mod 10 < 10" by simp
    then show ?thesis using False 1 digit_char_in [of "n mod 10"]
      by (subst str_nat.simps) simp
  qed
qed

lemma str_nat_nonempty: "str_nat n \<noteq> []"
  by (subst str_nat.simps) simp

lemma str_nat_length: "length (str_nat n) = 1 \<longleftrightarrow> n < 10"
proof (cases "n < 10")
  case True
  then show ?thesis by (subst str_nat.simps) simp
next
  case False
  have "length (str_nat (n div 10)) \<noteq> 0" using str_nat_nonempty by simp
  then show ?thesis using False by (subst str_nat.simps) simp
qed

lemma str_nat_inj: "str_nat n = str_nat m \<Longrightarrow> n = m"
proof (induction n arbitrary: m rule: str_nat.induct)
  case (1 n)
  show ?case
  proof (cases "n < 10")
    case True
    then have "length (str_nat m) = 1" using 1(2) str_nat_length [of n] by simp
    then have m: "m < 10" using str_nat_length [of m] by simp
    have "[digit_char n] = [digit_char m]"
      using 1(2) True m by (simp add: str_nat.simps [of n] str_nat.simps [of m])
    then show ?thesis using True m digit_char_inj by simp
  next
    case False
    then have "length (str_nat m) \<noteq> 1" using 1(2) str_nat_length [of n] by simp
    then have m: "\<not> m < 10" using str_nat_length [of m] by simp
    have "str_nat (n div 10) @ [digit_char (n mod 10)] = str_nat (m div 10) @ [digit_char (m mod 10)]"
      using 1(2) False m by (simp add: str_nat.simps [of n] str_nat.simps [of m])
    then have a: "str_nat (n div 10) = str_nat (m div 10)"
      and b: "digit_char (n mod 10) = digit_char (m mod 10)" by simp_all
    have "n div 10 = m div 10" using 1(1) [OF False a] .
    moreover have "n mod 10 = m mod 10" using b digit_char_inj [of "n mod 10" "m mod 10"] by simp
    ultimately show ?thesis by (metis div_mult_mod_eq)
  qed
qed

lemma str_int_inj: "str_int i = str_int j \<Longrightarrow> i = j"
proof -
  assume h: "str_int i = str_int j"
  have nd: "\<And>n. hd (str_nat n) \<noteq> CHR ''-''"
  proof -
    fix n
    have "hd (str_nat n) \<in> set (str_nat n)" using str_nat_nonempty by simp
    then have "hd (str_nat n) \<in> set ''0123456789''" using str_nat_digits by blast
    then show "hd (str_nat n) \<noteq> CHR ''-''" by auto
  qed
  show ?thesis
  proof (cases "i < 0")
    case True
    show ?thesis
    proof (cases "j < 0")
      case T2: True
      then have "str_nat (nat (- i)) = str_nat (nat (- j))" using h True by (simp add: str_int_def)
      then have "nat (- i) = nat (- j)" by (rule str_nat_inj)
      then show ?thesis using True T2 by simp
    next
      case False
      then have "CHR ''-'' # str_nat (nat (- i)) = str_nat (nat j)" using h True by (simp add: str_int_def)
      then have "hd (str_nat (nat j)) = CHR ''-''" by (metis list.sel(1))
      then show ?thesis using nd by blast
    qed
  next
    case False
    show ?thesis
    proof (cases "j < 0")
      case True
      then have "CHR ''-'' # str_nat (nat (- j)) = str_nat (nat i)" using h False by (simp add: str_int_def)
      then have "hd (str_nat (nat i)) = CHR ''-''" by (metis list.sel(1))
      then show ?thesis using nd by blast
    next
      case F2: False
      then have "str_nat (nat i) = str_nat (nat j)" using h False by (simp add: str_int_def)
      then have "nat i = nat j" by (rule str_nat_inj)
      then show ?thesis using False F2 by simp
    qed
  qed
qed

lemma str_int_no_sep: "CHR ''_'' \<notin> set (str_int i)"
proof -
  have "\<And>n. CHR ''_'' \<notin> set (str_nat n)"
  proof
    fix n assume "CHR ''_'' \<in> set (str_nat n)"
    then have "CHR ''_'' \<in> set ''0123456789''" using str_nat_digits by blast
    then show False by simp
  qed
  then show ?thesis by (simp add: str_int_def)
qed

lemma split_at_sep:
  "c \<notin> set a \<Longrightarrow> c \<notin> set a' \<Longrightarrow> a @ c # b = a' @ c # b' \<Longrightarrow> a = a' \<and> b = b'"
proof (induction a arbitrary: a')
  case Nil
  then show ?case by (cases a') auto
next
  case (Cons x a)
  then show ?case by (cases a') auto
qed

lemma top_label_inj: "top_label i = top_label j \<Longrightarrow> i = j"
  by (simp add: top_label_def str_int_inj)

lemma bridge_label_inj:
  "bridge_label i j = bridge_label i' j' \<Longrightarrow> i = i' \<and> j = j'"
proof -
  assume "bridge_label i j = bridge_label i' j'"
  then have "str_int i @ CHR ''_'' # str_int j = str_int i' @ CHR ''_'' # str_int j'"
    by (simp add: bridge_label_def)
  then have "str_int i = str_int i' \<and> str_int j = str_int j'"
    using split_at_sep [OF str_int_no_sep str_int_no_sep] by blast
  then show ?thesis using str_int_inj by blast
qed

lemma hollow_label_inj:
  "hollow_label i j k = hollow_label i' j' k' \<Longrightarrow> i = i' \<and> j = j' \<and> k = k'"
proof -
  assume "hollow_label i j k = hollow_label i' j' k'"
  then have "str_int i @ CHR ''_'' # (str_int j @ CHR ''_'' # str_int k)
           = str_int i' @ CHR ''_'' # (str_int j' @ CHR ''_'' # str_int k')"
    by (simp add: hollow_label_def)
  then have a: "str_int i = str_int i'"
    and "str_int j @ CHR ''_'' # str_int k = str_int j' @ CHR ''_'' # str_int k'"
    using split_at_sep [OF str_int_no_sep str_int_no_sep] by blast+
  then have "str_int j = str_int j' \<and> str_int k = str_int k'"
    using split_at_sep [OF str_int_no_sep str_int_no_sep] by blast
  then show ?thesis using a str_int_inj by blast
qed

lemma label_kinds:
  "top_label i \<noteq> bridge_label a b" "top_label i \<noteq> hollow_label a b c"
  "bridge_label a b \<noteq> hollow_label x y z"
  by (simp_all add: top_label_def bridge_label_def hollow_label_def)

subsection \<open>What the three passes append\<close>

lemma normal_shift: "vadd p (smul a normal) = (vx p, vy p, vz p + a)"
  by (cases p) (simp add: normal_def)

lemma mem_if_cons:
  "st \<in> set (if c then x # rs else rs) \<Longrightarrow> st \<notin> set rs \<Longrightarrow> c \<and> st = x"
  by (cases c) auto

lemma top_loop_mem:
  "top_loop pos ads_dist margin surf = Inr sites \<Longrightarrow> (l, s) \<in> set sites \<Longrightarrow>
   \<exists>idx p. idx \<in> set surf \<and> getitem pos idx = Inr p \<and> l = top_label idx
     \<and> s = vadd p (smul ads_dist normal) \<and> vz s > vz p + margin"
proof (induction surf arbitrary: sites)
  case Nil
  then show ?case by simp
next
  case (Cons idx rest)
  from Cons.prems(1) obtain p where p: "getitem pos idx = Inr p"
    by (cases "getitem pos idx") simp_all
  from Cons.prems(1) p obtain rs where rs: "top_loop pos ads_dist margin rest = Inr rs"
    by (cases "top_loop pos ads_dist margin rest") (simp_all add: Let_def)
  from Cons.prems(1) p rs
  have sites: "(if vz (vadd p (smul ads_dist normal)) > vz p + margin
                then (top_label idx, vadd p (smul ads_dist normal)) # rs else rs) = sites"
    by (simp add: Let_def)
  show ?case
  proof (cases "(l, s) \<in> set rs")
    case True
    from Cons.IH [OF rs True] show ?thesis by auto
  next
    case False
    from Cons.prems(2) have "(l, s) \<in> set (if vz (vadd p (smul ads_dist normal)) > vz p + margin
                then (top_label idx, vadd p (smul ads_dist normal)) # rs else rs)"
      unfolding sites .
    from mem_if_cons [OF this False]
    have "vz (vadd p (smul ads_dist normal)) > vz p + margin"
      and "l = top_label idx" and "s = vadd p (smul ads_dist normal)"
      by simp_all
    with p show ?thesis by (intro exI [of _ idx] exI [of _ p]) simp
  qed
qed

lemma bridge_inner_mem:
  "bridge_inner find_mic slab ads_dist dist_thr margin idx1 rest = Inr sites \<Longrightarrow>
   st \<in> set sites \<Longrightarrow>
   \<exists>idx2 \<in> set rest. bridge_of find_mic slab ads_dist dist_thr margin idx1 idx2 st"
proof (induction rest arbitrary: sites)
  case Nil
  then show ?case by simp
next
  case (Cons idx2 rest)
  from Cons.prems(1) obtain p2 where p2: "getitem (get_positions slab) idx2 = Inr p2"
    by (cases "getitem (get_positions slab) idx2") simp_all
  from Cons.prems(1) p2 obtain p1 where p1: "getitem (get_positions slab) idx1 = Inr p1"
    by (cases "getitem (get_positions slab) idx1") simp_all
  obtain vec d where fm: "find_mic (vsub p2 p1) (get_cell slab) (get_pbc slab) = (vec, d)"
    by (cases "find_mic (vsub p2 p1) (get_cell slab) (get_pbc slab)") simp
  from Cons.prems(1) p1 p2 fm obtain rs where
    rs: "bridge_inner find_mic slab ads_dist dist_thr margin idx1 rest = Inr rs"
    by (cases "bridge_inner find_mic slab ads_dist dist_thr margin idx1 rest")
       (simp_all add: Let_def)
  from Cons.prems(1) p1 p2 fm rs
  have sites:
      "(if d \<le> dist_thr \<and>
           vz (vadd (vadd p1 (sdiv vec 2)) (smul ads_dist normal)) > max (vz p1) (vz p2) + margin
        then (bridge_label idx1 idx2, vadd (vadd p1 (sdiv vec 2)) (smul ads_dist normal)) # rs
        else rs) = sites"
    by (simp add: Let_def)
  show ?case
  proof (cases "st \<in> set rs")
    case True
    from Cons.IH [OF rs True] show ?thesis by auto
  next
    case False
    from Cons.prems(2) have "st \<in> set (if d \<le> dist_thr \<and>
           vz (vadd (vadd p1 (sdiv vec 2)) (smul ads_dist normal)) > max (vz p1) (vz p2) + margin
        then (bridge_label idx1 idx2, vadd (vadd p1 (sdiv vec 2)) (smul ads_dist normal)) # rs
        else rs)"
      unfolding sites .
    from mem_if_cons [OF this False] have
      "d \<le> dist_thr"
      "vz (vadd (vadd p1 (sdiv vec 2)) (smul ads_dist normal)) > max (vz p1) (vz p2) + margin"
      "st = (bridge_label idx1 idx2, vadd (vadd p1 (sdiv vec 2)) (smul ads_dist normal))"
      by simp_all
    note c = this
    have f: "fst st = bridge_label idx1 idx2"
      and g: "snd st = vadd (vadd p1 (sdiv vec 2)) (smul ads_dist normal)"
      using c(3) by simp_all
    have "bridge_of find_mic slab ads_dist dist_thr margin idx1 idx2 st"
      unfolding bridge_of_def g
      using p1 p2 fm c(1-2) f by blast
    then show ?thesis by auto
  qed
qed

lemma bridge_loop_mem:
  "bridge_loop find_mic slab ads_dist dist_thr margin surf = Inr sites \<Longrightarrow>
   st \<in> set sites \<Longrightarrow>
   \<exists>idx1 \<in> set surf. \<exists>idx2 \<in> set surf.
      bridge_of find_mic slab ads_dist dist_thr margin idx1 idx2 st"
proof (induction surf arbitrary: sites)
  case Nil
  then show ?case by simp
next
  case (Cons idx1 rest)
  from Cons.prems(1) obtain here where
    here: "bridge_inner find_mic slab ads_dist dist_thr margin idx1 rest = Inr here"
    by (cases "bridge_inner find_mic slab ads_dist dist_thr margin idx1 rest") simp_all
  from Cons.prems(1) here obtain rs where
    rs: "bridge_loop find_mic slab ads_dist dist_thr margin rest = Inr rs"
    by (cases "bridge_loop find_mic slab ads_dist dist_thr margin rest") simp_all
  from Cons.prems(1) here rs have sites: "here @ rs = sites" by simp
  show ?case
  proof (cases "st \<in> set here")
    case True
    from bridge_inner_mem [OF here True] show ?thesis by auto
  next
    case False
    with Cons.prems(2) sites have "st \<in> set rs" by auto
    from Cons.IH [OF rs this] show ?thesis by auto
  qed
qed

lemma hollow_k_mem:
  "hollow_k find_mic slab ads_dist dist_thr margin idx1 idx2 rest = Inr sites \<Longrightarrow>
   st \<in> set sites \<Longrightarrow>
   \<exists>idx3 \<in> set rest. hollow_of find_mic slab ads_dist dist_thr margin idx1 idx2 idx3 st"
proof (induction rest arbitrary: sites)
  case Nil
  then show ?case by simp
next
  case (Cons idx3 rest)
  from Cons.prems(1) obtain p2 where p2: "getitem (get_positions slab) idx2 = Inr p2"
    by (cases "getitem (get_positions slab) idx2") simp_all
  from Cons.prems(1) p2 obtain p1 where p1: "getitem (get_positions slab) idx1 = Inr p1"
    by (cases "getitem (get_positions slab) idx1") simp_all
  from Cons.prems(1) p2 p1 obtain p3 where p3: "getitem (get_positions slab) idx3 = Inr p3"
    by (cases "getitem (get_positions slab) idx3") simp_all
  obtain v12 d12 where f12: "find_mic (vsub p2 p1) (get_cell slab) (get_pbc slab) = (v12, d12)"
    by (cases "find_mic (vsub p2 p1) (get_cell slab) (get_pbc slab)") simp
  obtain v13 d13 where f13: "find_mic (vsub p3 p1) (get_cell slab) (get_pbc slab) = (v13, d13)"
    by (cases "find_mic (vsub p3 p1) (get_cell slab) (get_pbc slab)") simp
  obtain v23 d23 where f23: "find_mic (vsub p3 p2) (get_cell slab) (get_pbc slab) = (v23, d23)"
    by (cases "find_mic (vsub p3 p2) (get_cell slab) (get_pbc slab)") simp
  from Cons.prems(1) p1 p2 p3 f12 f13 f23 obtain rs where
    rs: "hollow_k find_mic slab ads_dist dist_thr margin idx1 idx2 rest = Inr rs"
    by (cases "hollow_k find_mic slab ads_dist dist_thr margin idx1 idx2 rest")
       (simp_all add: Let_def)
  from Cons.prems(1) p1 p2 p3 f12 f13 f23 rs
  have sites:
      "(if d12 \<le> dist_thr \<and> d13 \<le> dist_thr \<and> d23 \<le> dist_thr \<and>
           vz (vadd (vadd p1 (sdiv (vadd v12 v13) 3)) (smul ads_dist normal))
             > max (max (vz p1) (vz p2)) (vz p3) + margin
        then (hollow_label idx1 idx2 idx3,
              vadd (vadd p1 (sdiv (vadd v12 v13) 3)) (smul ads_dist normal)) # rs
        else rs) = sites"
    by (simp add: Let_def)
  show ?case
  proof (cases "st \<in> set rs")
    case True
    from Cons.IH [OF rs True] show ?thesis by auto
  next
    case False
    from Cons.prems(2) have "st \<in> set
       (if d12 \<le> dist_thr \<and> d13 \<le> dist_thr \<and> d23 \<le> dist_thr \<and>
           vz (vadd (vadd p1 (sdiv (vadd v12 v13) 3)) (smul ads_dist normal))
             > max (max (vz p1) (vz p2)) (vz p3) + margin
        then (hollow_label idx1 idx2 idx3,
              vadd (vadd p1 (sdiv (vadd v12 v13) 3)) (smul ads_dist normal)) # rs
        else rs)"
      unfolding sites .
    from mem_if_cons [OF this False] have
      "d12 \<le> dist_thr" "d13 \<le> dist_thr" "d23 \<le> dist_thr"
      "vz (vadd (vadd p1 (sdiv (vadd v12 v13) 3)) (smul ads_dist normal))
             > max (max (vz p1) (vz p2)) (vz p3) + margin"
      "st = (hollow_label idx1 idx2 idx3,
              vadd (vadd p1 (sdiv (vadd v12 v13) 3)) (smul ads_dist normal))"
      by simp_all
    note c = this
    have f: "fst st = hollow_label idx1 idx2 idx3"
      and g: "snd st = vadd (vadd p1 (sdiv (vadd v12 v13) 3)) (smul ads_dist normal)"
      using c(5) by simp_all
    have "hollow_of find_mic slab ads_dist dist_thr margin idx1 idx2 idx3 st"
      unfolding hollow_of_def g
      using p1 p2 p3 f12 f13 f23 c(1-4) f by blast
    then show ?thesis by auto
  qed
qed

lemma hollow_j_mem:
  "hollow_j find_mic slab ads_dist dist_thr margin idx1 rest = Inr sites \<Longrightarrow>
   st \<in> set sites \<Longrightarrow>
   \<exists>idx2 \<in> set rest. \<exists>idx3 \<in> set rest.
      hollow_of find_mic slab ads_dist dist_thr margin idx1 idx2 idx3 st"
proof (induction rest arbitrary: sites)
  case Nil
  then show ?case by simp
next
  case (Cons idx2 rest)
  from Cons.prems(1) obtain here where
    here: "hollow_k find_mic slab ads_dist dist_thr margin idx1 idx2 rest = Inr here"
    by (cases "hollow_k find_mic slab ads_dist dist_thr margin idx1 idx2 rest") simp_all
  from Cons.prems(1) here obtain rs where
    rs: "hollow_j find_mic slab ads_dist dist_thr margin idx1 rest = Inr rs"
    by (cases "hollow_j find_mic slab ads_dist dist_thr margin idx1 rest") simp_all
  from Cons.prems(1) here rs have sites: "here @ rs = sites" by simp
  show ?case
  proof (cases "st \<in> set here")
    case True
    from hollow_k_mem [OF here True] show ?thesis by auto
  next
    case False
    with Cons.prems(2) sites have "st \<in> set rs" by auto
    from Cons.IH [OF rs this] show ?thesis by auto
  qed
qed

lemma hollow_i_mem:
  "hollow_i find_mic slab ads_dist dist_thr margin surf = Inr sites \<Longrightarrow>
   st \<in> set sites \<Longrightarrow>
   \<exists>idx1 \<in> set surf. \<exists>idx2 \<in> set surf. \<exists>idx3 \<in> set surf.
      hollow_of find_mic slab ads_dist dist_thr margin idx1 idx2 idx3 st"
proof (induction surf arbitrary: sites)
  case Nil
  then show ?case by simp
next
  case (Cons idx1 rest)
  from Cons.prems(1) obtain here where
    here: "hollow_j find_mic slab ads_dist dist_thr margin idx1 rest = Inr here"
    by (cases "hollow_j find_mic slab ads_dist dist_thr margin idx1 rest") simp_all
  from Cons.prems(1) here obtain rs where
    rs: "hollow_i find_mic slab ads_dist dist_thr margin rest = Inr rs"
    by (cases "hollow_i find_mic slab ads_dist dist_thr margin rest") simp_all
  from Cons.prems(1) here rs have sites: "here @ rs = sites" by simp
  show ?case
  proof (cases "st \<in> set here")
    case True
    from hollow_j_mem [OF here True] show ?thesis by auto
  next
    case False
    with Cons.prems(2) sites have "st \<in> set rs" by auto
    from Cons.IH [OF rs this] show ?thesis by auto
  qed
qed

lemma generate_parts:
  assumes "snd (generate_adsorption_sites find_mic slab surf ads_dist dist_thr margin) = Inr sites"
  obtains tops bridges hollows where
    "top_loop (get_positions slab) ads_dist margin surf = Inr tops"
    "bridge_loop find_mic slab ads_dist dist_thr margin surf = Inr bridges"
    "hollow_i find_mic slab ads_dist dist_thr margin surf = Inr hollows"
    "sites = tops @ bridges @ hollows"
proof -
  let ?t = "top_loop (get_positions slab) ads_dist margin surf"
  let ?b = "bridge_loop find_mic slab ads_dist dist_thr margin surf"
  let ?h = "hollow_i find_mic slab ads_dist dist_thr margin surf"
  from assms obtain tops where t: "?t = Inr tops"
    unfolding generate_adsorption_sites_def by (cases ?t) simp_all
  from assms t obtain bridges where b: "?b = Inr bridges"
    unfolding generate_adsorption_sites_def by (cases ?b) simp_all
  from assms t b obtain hollows where h: "?h = Inr hollows"
    unfolding generate_adsorption_sites_def by (cases ?h) simp_all
  from assms t b h have "sites = tops @ bridges @ hollows"
    unfolding generate_adsorption_sites_def by (auto simp: Let_def)
  with t b h show thesis by (rule that)
qed

lemma generate_top_mem:
  assumes "snd (generate_adsorption_sites find_mic slab surf ads_dist dist_thr margin) = Inr sites"
    and "(top_label i, s) \<in> set sites"
  shows "i \<in> set surf \<and> (\<exists>p. getitem (get_positions slab) i = Inr p
           \<and> s = vadd p (smul ads_dist normal) \<and> vz s > vz p + margin)"
proof -
  obtain tops bridges hollows where
    t: "top_loop (get_positions slab) ads_dist margin surf = Inr tops"
    and b: "bridge_loop find_mic slab ads_dist dist_thr margin surf = Inr bridges"
    and h: "hollow_i find_mic slab ads_dist dist_thr margin surf = Inr hollows"
    and s: "sites = tops @ bridges @ hollows"
    by (rule generate_parts [OF assms(1)])
  have nb: "(top_label i, s) \<notin> set bridges"
  proof
    assume "(top_label i, s) \<in> set bridges"
    from bridge_loop_mem [OF b this] obtain a c where "top_label i = bridge_label a c"
      unfolding bridge_of_def by auto
    then show False using label_kinds(1) by blast
  qed
  have nh: "(top_label i, s) \<notin> set hollows"
  proof
    assume "(top_label i, s) \<in> set hollows"
    from hollow_i_mem [OF h this] obtain a c e where "top_label i = hollow_label a c e"
      unfolding hollow_of_def by auto
    then show False using label_kinds(2) by blast
  qed
  from assms(2) s nb nh have "(top_label i, s) \<in> set tops" by simp
  from top_loop_mem [OF t this] show ?thesis using top_label_inj by blast
qed

lemma generate_bridge_mem:
  assumes "snd (generate_adsorption_sites find_mic slab surf ads_dist dist_thr margin) = Inr sites"
    and "(bridge_label i j, s) \<in> set sites"
  shows "i \<in> set surf \<and> j \<in> set surf
           \<and> bridge_of find_mic slab ads_dist dist_thr margin i j (bridge_label i j, s)"
proof -
  obtain tops bridges hollows where
    t: "top_loop (get_positions slab) ads_dist margin surf = Inr tops"
    and b: "bridge_loop find_mic slab ads_dist dist_thr margin surf = Inr bridges"
    and h: "hollow_i find_mic slab ads_dist dist_thr margin surf = Inr hollows"
    and s: "sites = tops @ bridges @ hollows"
    by (rule generate_parts [OF assms(1)])
  have nt: "(bridge_label i j, s) \<notin> set tops"
  proof
    assume "(bridge_label i j, s) \<in> set tops"
    from top_loop_mem [OF t this] show False using label_kinds(1) by metis
  qed
  have nh: "(bridge_label i j, s) \<notin> set hollows"
  proof
    assume "(bridge_label i j, s) \<in> set hollows"
    from hollow_i_mem [OF h this] obtain a c e where "bridge_label i j = hollow_label a c e"
      unfolding hollow_of_def by auto
    then show False using label_kinds(3) by blast
  qed
  from assms(2) s nt nh have "(bridge_label i j, s) \<in> set bridges" by simp
  from bridge_loop_mem [OF b this] obtain a c where a: "a \<in> set surf" and c: "c \<in> set surf"
    and bo: "bridge_of find_mic slab ads_dist dist_thr margin a c (bridge_label i j, s)"
    by blast
  from bo have "bridge_label i j = bridge_label a c" unfolding bridge_of_def by auto
  then have "i = a \<and> j = c" by (rule bridge_label_inj)
  with a c bo show ?thesis by simp
qed

lemma generate_hollow_mem:
  assumes "snd (generate_adsorption_sites find_mic slab surf ads_dist dist_thr margin) = Inr sites"
    and "(hollow_label i j k, s) \<in> set sites"
  shows "i \<in> set surf \<and> j \<in> set surf \<and> k \<in> set surf
           \<and> hollow_of find_mic slab ads_dist dist_thr margin i j k (hollow_label i j k, s)"
proof -
  obtain tops bridges hollows where
    t: "top_loop (get_positions slab) ads_dist margin surf = Inr tops"
    and b: "bridge_loop find_mic slab ads_dist dist_thr margin surf = Inr bridges"
    and h: "hollow_i find_mic slab ads_dist dist_thr margin surf = Inr hollows"
    and s: "sites = tops @ bridges @ hollows"
    by (rule generate_parts [OF assms(1)])
  have nt: "(hollow_label i j k, s) \<notin> set tops"
  proof
    assume "(hollow_label i j k, s) \<in> set tops"
    from top_loop_mem [OF t this] show False using label_kinds(2) by metis
  qed
  have nb: "(hollow_label i j k, s) \<notin> set bridges"
  proof
    assume "(hollow_label i j k, s) \<in> set bridges"
    from bridge_loop_mem [OF b this] obtain a c where "bridge_label a c = hollow_label i j k"
      unfolding bridge_of_def by auto
    then show False using label_kinds(3) by blast
  qed
  from assms(2) s nt nb have "(hollow_label i j k, s) \<in> set hollows" by simp
  from hollow_i_mem [OF h this] obtain a c e where
    a: "a \<in> set surf" and c: "c \<in> set surf" and e: "e \<in> set surf"
    and ho: "hollow_of find_mic slab ads_dist dist_thr margin a c e (hollow_label i j k, s)"
    by blast
  from ho have "hollow_label i j k = hollow_label a c e" unfolding hollow_of_def by auto
  then have "i = a \<and> j = c \<and> k = e" by (rule hollow_label_inj)
  with a c e ho show ?thesis by simp
qed

subsection \<open>Claims about the generated sites\<close>

lemma sqrt_le_iff_sq: "0 \<le> t \<Longrightarrow> sqrt x \<le> t \<longleftrightarrow> x \<le> t\<^sup>2"
  by (metis real_sqrt_le_iff real_sqrt_abs abs_of_nonneg)

lemmas eval_defs = generate_adsorption_sites_def get_positions_def get_cell_def get_pbc_def
  getitem_def Let_def normal_def norm3_def

text \<open>
  In exact arithmetic a Top site lies \<open>ads_dist\<close> above its atom; the float64 sum is
  treated in its own subsection below.
\<close>

lemma top_site_height_exact:
  assumes "snd (generate_adsorption_sites find_mic slab surface_atoms ads_dist dist_thr margin)
             = Inr sites"
    and "(top_label i, site) \<in> set sites"
  shows "\<exists>p. getitem (get_positions slab) i = Inr p
           \<and> vz site - vz p = ads_dist \<and> vx site = vx p \<and> vy site = vy p"
proof -
  from generate_top_mem [OF assms] obtain p where
    p: "getitem (get_positions slab) i = Inr p" and s: "site = vadd p (smul ads_dist normal)"
    by blast
  have "site = (vx p, vy p, vz p + ads_dist)" using s by (simp add: normal_shift)
  then have "vz site - vz p = ads_dist \<and> vx site = vx p \<and> vy site = vy p" by simp
  with p show ?thesis by blast
qed

lemma slab_line_sites:
  "snd (generate_adsorption_sites find_mic_free slab_line [0, 1, 2] (9 / 5) 3 (1 / 5))
     = Inr [(top_label 0, (0, 0, 9 / 5)), (top_label 1, (1, 0, 9 / 5)),
            (top_label 2, (5, 0, 9 / 5)), (bridge_label 0 1, (1 / 2, 0, 9 / 5))]"
  by (simp add: eval_defs slab_line_def find_mic_free_def sqrt_le_iff_sq)

lemma midpoint_differs:
  assumes "vadd (vadd p (sdiv v 2)) a = vadd (sdiv (vadd p q) 2) a"
  shows "v = vsub q p"
proof -
  obtain p1 p2 p3 where p: "p = (p1, p2, p3)" by (cases p)
  obtain q1 q2 q3 where q: "q = (q1, q2, q3)" by (cases q)
  obtain v1 v2 v3 where v: "v = (v1, v2, v3)" by (cases v)
  obtain a1 a2 a3 where a: "a = (a1, a2, a3)" by (cases a)
  from assms have "p1 + v1 / 2 = (p1 + q1) / 2" "p2 + v2 / 2 = (p2 + q2) / 2"
    "p3 + v3 / 2 = (p3 + q3) / 2"
    unfolding p q v a by simp_all
  then have "v1 = q1 - p1" "v2 = q2 - p2" "v3 = q3 - p3" by (simp_all add: field_simps)
  then show ?thesis unfolding p q v by simp
qed

text \<open>
  Claim C3 (Bridge sites use the minimum image). Every Bridge site in the returned list, from
  surface atoms \<open>i\<close> and \<open>j\<close>, is \<open>pos[i]\<close> plus half the vector that \<open>find_mic\<close>
  returns for \<open>pos[j] - pos[i]\<close>, plus \<open>ads_dist\<close> in z. When that vector is not the raw
  displacement (in particular when the periodic and the direct distance disagree), the site
  is not the Cartesian midpoint of \<open>pos[i]\<close> and \<open>pos[j]\<close> raised by \<open>ads_dist\<close>.
\<close>

theorem bridge_site_minimum_image:
  assumes "snd (generate_adsorption_sites find_mic slab surface_atoms ads_dist dist_thr margin)
             = Inr sites"
    and "(bridge_label i j, site) \<in> set sites"
  shows "\<exists>p_i p_j vec d.
           getitem (get_positions slab) i = Inr p_i \<and>
           getitem (get_positions slab) j = Inr p_j \<and>
           find_mic (vsub p_j p_i) (get_cell slab) (get_pbc slab) = (vec, d) \<and>
           site = vadd (vadd p_i (sdiv vec 2)) (0, 0, ads_dist) \<and>
           (vec \<noteq> vsub p_j p_i \<longrightarrow>
              site \<noteq> vadd (sdiv (vadd p_i p_j) 2) (0, 0, ads_dist)) \<and>
           (d = norm3 vec \<longrightarrow> d \<noteq> norm3 (vsub p_j p_i) \<longrightarrow>
              site \<noteq> vadd (sdiv (vadd p_i p_j) 2) (0, 0, ads_dist))"
proof -
  from generate_bridge_mem [OF assms]
  have "bridge_of find_mic slab ads_dist dist_thr margin i j (bridge_label i j, site)" by simp
  then obtain p_i p_j vec d where
    pi: "getitem (get_positions slab) i = Inr p_i" and
    pj: "getitem (get_positions slab) j = Inr p_j" and
    fm: "find_mic (vsub p_j p_i) (get_cell slab) (get_pbc slab) = (vec, d)" and
    s: "site = vadd (vadd p_i (sdiv vec 2)) (smul ads_dist normal)"
    unfolding bridge_of_def by auto
  have n: "smul ads_dist normal = (0, 0, ads_dist)" by (simp add: normal_def)
  have s': "site = vadd (vadd p_i (sdiv vec 2)) (0, 0, ads_dist)" using s n by simp
  have d1: "vec \<noteq> vsub p_j p_i \<longrightarrow> site \<noteq> vadd (sdiv (vadd p_i p_j) 2) (0, 0, ads_dist)"
    using midpoint_differs [of p_i vec "(0, 0, ads_dist)" p_j] s' by auto
  have d2: "d = norm3 vec \<longrightarrow> d \<noteq> norm3 (vsub p_j p_i) \<longrightarrow>
              site \<noteq> vadd (sdiv (vadd p_i p_j) 2) (0, 0, ads_dist)"
    using d1 by auto
  from pi pj fm s' d1 d2 show ?thesis by blast
qed

lemma slab_straddle_sites:
  "snd (generate_adsorption_sites (find_mic_cubic 10) slab_straddle [0, 1] (9 / 5) 3 (1 / 5))
     = Inr [(top_label 0, (1 / 2, 0, 9 / 5)), (top_label 1, (19 / 2, 0, 9 / 5)),
            (bridge_label 0 1, (0, 0, 9 / 5))]"
  by (simp add: eval_defs slab_straddle_def find_mic_cubic_def wrap_def sqrt_le_iff_sq)

theorem bridge_site_minimum_image_witness:
  "find_mic_cubic 10 (vsub (19 / 2, 0, 0) (1 / 2, 0, 0)) (get_cell slab_straddle)
       (get_pbc slab_straddle) = ((- 1, 0, 0), 1) \<and>
   (- 1, 0, 0) \<noteq> vsub (19 / 2, 0, 0) (1 / 2, 0, 0) \<and>
   (0, 0, 9 / 5) = vadd (vadd (1 / 2, 0, 0) (sdiv (- 1, 0, 0) 2)) (0, 0, 9 / 5) \<and>
   (0, 0, 9 / 5) \<noteq> vadd (sdiv (vadd (1 / 2, 0, 0) (19 / 2, 0, 0)) 2) (0, 0, 9 / 5 :: real)"
proof -
  have mem: "(bridge_label 0 1, (0, 0, 9 / 5)) \<in> set
     [(top_label 0, (1 / 2, 0, 9 / 5)), (top_label 1, (19 / 2, 0, 9 / 5)),
      (bridge_label 0 1, (0, 0, 9 / 5 :: real))]"
    by simp
  from bridge_site_minimum_image [OF slab_straddle_sites mem]
  obtain p_i p_j vec d where
    pi: "getitem (get_positions slab_straddle) 0 = Inr p_i" and
    pj: "getitem (get_positions slab_straddle) 1 = Inr p_j" and
    fm: "find_mic_cubic 10 (vsub p_j p_i) (get_cell slab_straddle) (get_pbc slab_straddle)
           = (vec, d)" and
    s: "(0, 0, 9 / 5) = vadd (vadd p_i (sdiv vec 2)) (0, 0, 9 / 5)" and
    ne: "vec \<noteq> vsub p_j p_i \<longrightarrow>
           (0, 0, 9 / 5) \<noteq> vadd (sdiv (vadd p_i p_j) 2) (0, 0, 9 / 5)"
    by blast
  have pi': "p_i = (1 / 2, 0, 0)" and pj': "p_j = (19 / 2, 0, 0)"
    using pi pj by (simp_all add: get_positions_def getitem_def slab_straddle_def)
  have fm': "find_mic_cubic 10 (vsub (19 / 2, 0, 0) (1 / 2, 0, 0)) (get_cell slab_straddle)
       (get_pbc slab_straddle) = ((- 1, 0, 0), 1)"
    by (simp add: find_mic_cubic_def wrap_def Let_def norm3_def)
  have vec: "vec = (- 1, 0, 0)" using fm fm' unfolding pi' pj' by simp
  show ?thesis using fm' s ne unfolding pi' pj' vec by simp
qed

text \<open>
  Claim C7 (Distance gating). The returned list holds no Bridge site for a pair of atoms whose
  minimum-image distance exceeds \<open>dist_thr\<close>, and no Hollow site for a triple in which one
  of the three pairwise minimum-image distances exceeds \<open>dist_thr\<close>.
\<close>

theorem distance_gating:
  assumes "snd (generate_adsorption_sites find_mic slab surface_atoms ads_dist dist_thr margin)
             = Inr sites"
  shows "(\<forall>i j p_i p_j site.
            getitem (get_positions slab) i = Inr p_i \<longrightarrow>
            getitem (get_positions slab) j = Inr p_j \<longrightarrow>
            snd (find_mic (vsub p_j p_i) (get_cell slab) (get_pbc slab)) > dist_thr \<longrightarrow>
            (bridge_label i j, site) \<notin> set sites)
       \<and> (\<forall>i j k p_i p_j p_k site.
            getitem (get_positions slab) i = Inr p_i \<longrightarrow>
            getitem (get_positions slab) j = Inr p_j \<longrightarrow>
            getitem (get_positions slab) k = Inr p_k \<longrightarrow>
            (snd (find_mic (vsub p_j p_i) (get_cell slab) (get_pbc slab)) > dist_thr
             \<or> snd (find_mic (vsub p_k p_i) (get_cell slab) (get_pbc slab)) > dist_thr
             \<or> snd (find_mic (vsub p_k p_j) (get_cell slab) (get_pbc slab)) > dist_thr) \<longrightarrow>
            (hollow_label i j k, site) \<notin> set sites)"
proof (intro conjI allI impI notI)
  fix i j p_i p_j site
  assume pi: "getitem (get_positions slab) i = Inr p_i"
    and pj: "getitem (get_positions slab) j = Inr p_j"
    and far: "snd (find_mic (vsub p_j p_i) (get_cell slab) (get_pbc slab)) > dist_thr"
    and mem: "(bridge_label i j, site) \<in> set sites"
  from generate_bridge_mem [OF assms mem]
  have "bridge_of find_mic slab ads_dist dist_thr margin i j (bridge_label i j, site)" by simp
  then obtain p1 p2 vec d where
    "getitem (get_positions slab) i = Inr p1" "getitem (get_positions slab) j = Inr p2"
    "find_mic (vsub p2 p1) (get_cell slab) (get_pbc slab) = (vec, d)" "d \<le> dist_thr"
    unfolding bridge_of_def by auto
  with pi pj far show False by simp
next
  fix i j k p_i p_j p_k site
  assume pi: "getitem (get_positions slab) i = Inr p_i"
    and pj: "getitem (get_positions slab) j = Inr p_j"
    and pk: "getitem (get_positions slab) k = Inr p_k"
    and far: "snd (find_mic (vsub p_j p_i) (get_cell slab) (get_pbc slab)) > dist_thr
             \<or> snd (find_mic (vsub p_k p_i) (get_cell slab) (get_pbc slab)) > dist_thr
             \<or> snd (find_mic (vsub p_k p_j) (get_cell slab) (get_pbc slab)) > dist_thr"
    and mem: "(hollow_label i j k, site) \<in> set sites"
  from generate_hollow_mem [OF assms mem]
  have "hollow_of find_mic slab ads_dist dist_thr margin i j k (hollow_label i j k, site)"
    by simp
  then obtain p1 p2 p3 v12 d12 v13 d13 v23 d23 where
    "getitem (get_positions slab) i = Inr p1" "getitem (get_positions slab) j = Inr p2"
    "getitem (get_positions slab) k = Inr p3"
    "find_mic (vsub p2 p1) (get_cell slab) (get_pbc slab) = (v12, d12)"
    "find_mic (vsub p3 p1) (get_cell slab) (get_pbc slab) = (v13, d13)"
    "find_mic (vsub p3 p2) (get_cell slab) (get_pbc slab) = (v23, d23)"
    "d12 \<le> dist_thr" "d13 \<le> dist_thr" "d23 \<le> dist_thr"
    unfolding hollow_of_def by blast
  with pi pj pk far show False by auto
qed

theorem distance_gating_witness:
  "(\<forall>site. (bridge_label 0 2, site) \<notin> set
       ([(top_label 0, (0, 0, 9 / 5)), (top_label 1, (1, 0, 9 / 5)),
         (top_label 2, (5, 0, 9 / 5)), (bridge_label 0 1, (1 / 2, 0, 9 / 5))] :: site list))
   \<and> (\<forall>site. (hollow_label 0 1 2, site) \<notin> set
       ([(top_label 0, (0, 0, 9 / 5)), (top_label 1, (1, 0, 9 / 5)),
         (top_label 2, (5, 0, 9 / 5)), (bridge_label 0 1, (1 / 2, 0, 9 / 5))] :: site list))"
proof -
  have p0: "getitem (get_positions slab_line) 0 = Inr (0, 0, 0)"
    and p1: "getitem (get_positions slab_line) 1 = Inr (1, 0, 0)"
    and p2: "getitem (get_positions slab_line) 2 = Inr (5, 0, 0)"
    by (simp_all add: get_positions_def getitem_def slab_line_def)
  have far: "snd (find_mic_free (vsub (5, 0, 0) (0, 0, 0)) (get_cell slab_line)
               (get_pbc slab_line)) > 3"
    by (simp add: find_mic_free_def norm3_def not_le [symmetric] sqrt_le_iff_sq)
  from distance_gating [OF slab_line_sites] p0 p1 p2 far show ?thesis by blast
qed

subsection \<open>Surface selection\<close>

lemma set_candidates:
  "set (candidates (map vz (get_positions slab)) z_th) = candidate_set slab z_th"
  by (auto simp: candidates_def candidate_set_def get_positions_def)

lemma distinct_candidates: "distinct (candidates zs z_th)"
  by (simp add: candidates_def)

lemma length_candidates:
  "length (candidates (map vz (get_positions slab)) z_th) = card (candidate_set slab z_th)"
  using distinct_card [OF distinct_candidates] set_candidates by metis

lemma identify_percentile_error:
  "percentile (map vz (get_positions slab)) q = Inl e \<Longrightarrow>
   identify_surface_atoms_via_hull convex_hull slab q = ([], Inl e)"
  by (simp add: identify_surface_atoms_via_hull_def)

lemma take_indices_subset: "take_indices a vs = Inr r \<Longrightarrow> set r \<subseteq> set a"
  by (auto simp: take_indices_def split: if_splits)

text \<open>
  Claim C4 (Degenerate fallback). When fewer than three atom indices satisfy
  \<open>z\<^sub>i \<ge> z_th\<close>, the function returns exactly the candidate indices, whatever the
  hull routine is (it is not called), after an INFO and a WARNING record; it does not raise.
\<close>

theorem degenerate_fallback:
  assumes "percentile (map vz (get_positions slab)) q = Inr z_th"
    and "card (candidate_set slab z_th) < 3"
  shows "identify_surface_atoms_via_hull convex_hull slab q =
           ([(INFO, PercentileCandidates q z_th (card (candidate_set slab z_th))),
             (WARNING, TooFewCandidates)],
            Inr (map int (candidates (map vz (get_positions slab)) z_th)))
         \<and> set (candidates (map vz (get_positions slab)) z_th) = candidate_set slab z_th"
  using assms length_candidates [of slab z_th] set_candidates [of slab z_th]
  by (simp add: identify_surface_atoms_via_hull_def Let_def)

lemma slab_straddle_percentile:
  "percentile (map vz (get_positions slab_straddle)) 70 = Inr 0"
  by (simp add: percentile_def get_positions_def slab_straddle_def Let_def)

theorem degenerate_fallback_witness:
  "percentile (map vz (get_positions slab_straddle)) 70 = Inr 0
   \<and> card (candidate_set slab_straddle 0) < 3
   \<and> identify_surface_atoms_via_hull hull_convex_position slab_straddle 70 =
         ([(INFO, PercentileCandidates 70 0 2), (WARNING, TooFewCandidates)], Inr [0, 1])"
proof -
  have len: "length (candidates (map vz (get_positions slab_straddle)) 0) = 2"
    by (simp add: candidates_def get_positions_def slab_straddle_def)
  then have c: "card (candidate_set slab_straddle 0) = 2"
    by (simp add: length_candidates)
  then have c3: "card (candidate_set slab_straddle 0) < 3" by simp
  have cand: "candidates (map vz (get_positions slab_straddle)) 0 = [0, 1]"
    by (simp add: candidates_def get_positions_def slab_straddle_def)
  from degenerate_fallback [OF slab_straddle_percentile c3, of hull_convex_position]
  show ?thesis using slab_straddle_percentile c by (simp add: cand)
qed

lemma identify_Inr:
  assumes "snd (identify_surface_atoms_via_hull convex_hull slab q) = Inr surf"
  obtains z_th where "percentile (map vz (get_positions slab)) q = Inr z_th"
    and "set surf \<subseteq> int ` set (candidates (map vz (get_positions slab)) z_th)"
    and "length (candidates (map vz (get_positions slab)) z_th) < 3 \<Longrightarrow>
           surf = map int (candidates (map vz (get_positions slab)) z_th)"
    and "\<not> length (candidates (map vz (get_positions slab)) z_th) < 3 \<Longrightarrow>
           \<exists>vs. convex_hull (map (\<lambda>i. (vx (get_positions slab ! i), vy (get_positions slab ! i)))
                     (candidates (map vz (get_positions slab)) z_th)) = Inr vs
             \<and> surf = map (\<lambda>v. int (candidates (map vz (get_positions slab)) z_th ! v)) vs"
proof -
  let ?zs = "map vz (get_positions slab)"
  from assms obtain z_th where z: "percentile ?zs q = Inr z_th"
    by (cases "percentile ?zs q") (simp_all add: identify_surface_atoms_via_hull_def)
  let ?cand = "candidates ?zs z_th"
  let ?xy = "map (\<lambda>i. (vx (get_positions slab ! i), vy (get_positions slab ! i))) ?cand"
  show thesis
  proof (cases "length ?cand < 3")
    case True
    with assms z have s: "surf = map int ?cand"
      by (simp add: identify_surface_atoms_via_hull_def Let_def)
    then have "set surf \<subseteq> int ` set ?cand" by simp
    with z s True show thesis by (intro that [of z_th]) simp_all
  next
    case False
    from assms z False obtain vs where h: "convex_hull ?xy = Inr vs"
      by (cases "convex_hull ?xy") (simp_all add: identify_surface_atoms_via_hull_def Let_def)
    from assms z False h obtain r where t: "take_indices ?cand vs = Inr r"
      by (cases "take_indices ?cand vs")
         (simp_all add: identify_surface_atoms_via_hull_def Let_def)
    from assms z False h t have s: "surf = map int r"
      by (simp add: identify_surface_atoms_via_hull_def Let_def)
    from t have r: "r = map (\<lambda>v. ?cand ! v) vs"
      by (auto simp: take_indices_def split: if_splits)
    from take_indices_subset [OF t] s have sub: "set surf \<subseteq> int ` set ?cand" by auto
    have "surf = map (\<lambda>v. int (?cand ! v)) vs" using s r by simp
    with z sub False h show thesis by (intro that [of z_th]) auto
  qed
qed

text \<open>
  Claim C5 (Hull subset property). The returned indices are among the candidate set
  \<open>{i. z\<^sub>i \<ge> z_th}\<close>, which is a set of atom indices of the structure.
\<close>

theorem hull_subset_property:
  assumes "snd (identify_surface_atoms_via_hull convex_hull slab q) = Inr surf"
  shows "\<exists>z_th. percentile (map vz (get_positions slab)) q = Inr z_th
           \<and> set surf \<subseteq> int ` candidate_set slab z_th
           \<and> candidate_set slab z_th \<subseteq> {0..<length (atom_list slab)}"
proof -
  from assms obtain z_th where z: "percentile (map vz (get_positions slab)) q = Inr z_th"
    and s: "set surf \<subseteq> int ` set (candidates (map vz (get_positions slab)) z_th)"
    by (rule identify_Inr)
  have "candidate_set slab z_th \<subseteq> {0..<length (atom_list slab)}"
    by (auto simp: candidate_set_def)
  with z s show ?thesis unfolding set_candidates by blast
qed



lemma slab_square_surface:
  "identify_surface_atoms_via_hull hull_convex_position slab_square 70
     = ([(INFO, PercentileCandidates 70 0 4), (INFO, HullSurfaceAtoms 4)], Inr [1, 2, 3, 4])"
  by (simp add: identify_surface_atoms_via_hull_def percentile_def candidates_def
        take_indices_def get_positions_def Let_def slab_square_def hull_convex_position_def
        flat_def)

theorem hull_subset_property_witness:
  "\<exists>z_th. percentile (map vz (get_positions slab_square)) 70 = Inr z_th
     \<and> set [1, 2, 3, 4] \<subseteq> int ` candidate_set slab_square z_th
     \<and> candidate_set slab_square z_th \<subseteq> {0..<length (atom_list slab_square)}"
  by (rule hull_subset_property [of hull_convex_position]) (simp add: slab_square_surface)

subsection \<open>The Top-site height in float64\<close>

lemma floor_log2: 
  assumes "(2::real) powr of_int k \<le> \<bar>x\<bar>" "\<bar>x\<bar> < 2 powr of_int (k + 1)"
  shows "\<lfloor>log 2 \<bar>x\<bar>\<rfloor> = k"
proof -
  have pos: "0 < \<bar>x\<bar>" using assms(1) by (smt (verit) powr_gt_zero)
  have a: "of_int k \<le> log 2 \<bar>x\<bar>" using assms(1) pos by (simp add: le_log_iff)
  have b: "log 2 \<bar>x\<bar> < of_int (k + 1)" using assms(2) pos by (simp add: log_less_iff)
  show ?thesis using a b by (intro floor_unique) simp_all
qed

lemma fl64_binade:
  assumes "(2::real) powr of_int k \<le> \<bar>x\<bar>" "\<bar>x\<bar> < 2 powr of_int (k + 1)" "- 1022 \<le> k"
  shows "fl64 x = of_int (round_even (x / 2 powr of_int (k - 52))) * 2 powr of_int (k - 52)"
proof -
  have "0 < \<bar>x\<bar>" using assms(1) by (smt (verit) powr_gt_zero)
  then have nz: "x \<noteq> 0" by auto
  have "ulp_exp x = k - 52" using floor_log2 [OF assms(1,2)] assms(3) by (simp add: ulp_exp_def)
  then show ?thesis using nz by (simp add: fl64_def)
qed

lemma p2: "(2::real) powr 2 = 4" "(2::real) powr 3 = 8"
  "(2::real) powr (- 50) = 1 / 2 ^ 50"
  by (simp_all add: powr_minus inverse_eq_divide)

lemma sum68: "fl64 (5 + 8106479329266893 / 2 ^ 52) = 7656119366529843 / 2 ^ 50"
proof -
  have "fl64 (5 + 8106479329266893 / 2 ^ 52) =
     of_int (round_even ((5 + 8106479329266893 / 2 ^ 52) / 2 powr of_int (2 - 52))) * 2 powr of_int (2 - 52)"
    by (rule fl64_binade) (simp_all add: p2)
  also have "\<dots> = 7656119366529843 / 2 ^ 50"
    by (simp add: p2 round_even_def Let_def)
  finally show ?thesis .
qed

lemma fl64_zero: "fl64 0 = 0" by (simp add: fl64_def)

lemma f64_zero: "f64 0 = Inr 0" by (simp add: f64_def fl64_zero)

lemma f64_fixed: "is_f64 x \<Longrightarrow> f64 x = Inr x"
  by (simp add: is_f64_def f64_def)

lemma f64_Inr: "f64 x = Inr y \<Longrightarrow> y = fl64 x"
  by (simp add: f64_def split: if_splits)

lemma getitem_mem: "getitem a i = Inr x \<Longrightarrow> x \<in> set a"
  by (auto simp: getitem_def split: if_splits)

lemma smul_normal_f64: "is_f64 k \<Longrightarrow> smul_f64 normal k = Inr (0, 0, k)"
  by (simp add: smul_f64_def normal_def f64_zero f64_fixed)

lemma vadd_shift_f64:
  assumes "vadd_f64 p (0, 0, k) = Inr site" and "is_f64 (vx p)" and "is_f64 (vy p)"
  shows "vx site = vx p \<and> vy site = vy p \<and> vz site = fl64 (vz p + k)"
proof -
  obtain x y z where p: "p = (x, y, z)" by (cases p)
  have fx: "f64 x = Inr x" and fy: "f64 y = Inr y"
    using assms(2,3) by (simp_all add: p f64_fixed)
  from assms(1) obtain w where w: "f64 (z + k) = Inr w" and s: "site = (x, y, w)"
    by (cases "f64 (z + k)") (auto simp: vadd_f64_def p fx fy)
  from f64_Inr [OF w] s show ?thesis by (simp add: p)
qed

lemma top_loop_f64_mem:
  assumes "is_f64 ads_dist" and "\<forall>p \<in> set pos. is_f64 (vx p) \<and> is_f64 (vy p)"
  shows "top_loop_f64 pos ads_dist margin surf = Inr sites \<Longrightarrow> (l, s) \<in> set sites \<Longrightarrow>
   \<exists>idx p. idx \<in> set surf \<and> getitem pos idx = Inr p \<and> l = top_label idx
     \<and> vx s = vx p \<and> vy s = vy p \<and> vz s = fl64 (vz p + ads_dist)
     \<and> vz s > fl64 (vz p + margin)"
proof (induction surf arbitrary: sites)
  case Nil
  then show ?case by simp
next
  case (Cons idx rest)
  note sm = smul_normal_f64 [OF assms(1)]
  from Cons.prems(1) obtain p where p: "getitem pos idx = Inr p"
    by (cases "getitem pos idx") simp_all
  from Cons.prems(1) p obtain site where v: "vadd_f64 p (0, 0, ads_dist) = Inr site"
    by (cases "vadd_f64 p (0, 0, ads_dist)") (simp_all add: sm)
  from Cons.prems(1) p v obtain fz where fz: "f64 (vz p + margin) = Inr fz"
    by (cases "f64 (vz p + margin)") (simp_all add: sm)
  from Cons.prems(1) p v fz obtain rs where rs: "top_loop_f64 pos ads_dist margin rest = Inr rs"
    by (cases "top_loop_f64 pos ads_dist margin rest") (simp_all add: sm)
  from Cons.prems(1) p v fz rs
  have sites: "(if vz site > fz then (top_label idx, site) # rs else rs) = sites"
    by (simp add: sm)
  have pin: "is_f64 (vx p) \<and> is_f64 (vy p)" using assms(2) getitem_mem [OF p] by blast
  show ?case
  proof (cases "(l, s) \<in> set rs")
    case True
    from Cons.IH [OF rs True] show ?thesis by auto
  next
    case False
    from Cons.prems(2) have "(l, s) \<in> set (if vz site > fz then (top_label idx, site) # rs else rs)"
      unfolding sites .
    from mem_if_cons [OF this False] have kept: "vz site > fz" and l: "l = top_label idx"
      and s: "s = site" by simp_all
    from vadd_shift_f64 [OF v] pin
    have "vx site = vx p \<and> vy site = vy p \<and> vz site = fl64 (vz p + ads_dist)" by simp
    moreover have "fz = fl64 (vz p + margin)" using fz by (rule f64_Inr)
    ultimately show ?thesis using p l s kept by (intro exI [of _ idx] exI [of _ p]) simp
  qed
qed

text \<open>
  Claim C6 (Top-site height law), as the float64 code has it. Every Top site that the Top
  loop appends for source atom \<open>i\<close> has the x and y coordinates of \<open>pos[i]\<close>, and its z
  coordinate is the float64 sum of \<open>pos[i].z\<close> and \<open>ads_dist\<close>: the exact sum, rounded.
  The difference \<open>site.z - pos[i].z\<close> is \<open>ads_dist\<close> when that sum needs no rounding.
\<close>

theorem top_site_height_law_f64:
  assumes "top_loop_f64 pos ads_dist margin surface_atoms = Inr sites"
    and "(top_label i, site) \<in> set sites"
    and "is_f64 ads_dist"
    and "\<forall>p \<in> set pos. is_f64 (vx p) \<and> is_f64 (vy p)"
  shows "\<exists>p. getitem pos i = Inr p \<and> vx site = vx p \<and> vy site = vy p
           \<and> vz site = fl64 (vz p + ads_dist)
           \<and> (fl64 (vz p + ads_dist) = vz p + ads_dist \<longrightarrow> vz site - vz p = ads_dist)"
proof -
  from top_loop_f64_mem [OF assms(3,4) assms(1,2)] obtain idx p where
    l: "top_label i = top_label idx" and p: "getitem pos idx = Inr p"
    and c: "vx site = vx p" "vy site = vy p" "vz site = fl64 (vz p + ads_dist)"
    by blast
  from l have "i = idx" by (rule top_label_inj)
  with p c show ?thesis by (intro exI [of _ p]) simp
qed

lemma p3: "(2::real) powr (- 52) = 1 / 2 ^ 52" "(2::real) powr (- 55) = 1 / 2 ^ 55"
  "(2::real) powr (- 3) = 1 / 8" "(2::real) powr (- 2) = 1 / 4"
  by (simp_all add: powr_minus inverse_eq_divide)

lemma fl64_ads: "fl64 (8106479329266893 / 2 ^ 52) = 8106479329266893 / 2 ^ 52"
proof -
  have "fl64 (8106479329266893 / 2 ^ 52) =
     of_int (round_even ((8106479329266893 / 2 ^ 52) / 2 powr of_int (0 - 52)))
       * 2 powr of_int (0 - 52)"
    by (rule fl64_binade) simp_all
  also have "\<dots> = 8106479329266893 / 2 ^ 52"
    by (simp add: p3 round_even_def Let_def)
  finally show ?thesis .
qed

lemma fl64_nine_fifths: "fl64 (9 / 5) = 8106479329266893 / 2 ^ 52"
proof -
  have "fl64 (9 / 5) =
     of_int (round_even ((9 / 5) / 2 powr of_int (0 - 52))) * 2 powr of_int (0 - 52)"
    by (rule fl64_binade) simp_all
  also have "\<dots> = 8106479329266893 / 2 ^ 52"
    by (simp add: p3 round_even_def Let_def)
  finally show ?thesis .
qed

lemma fl64_one_fifth: "fl64 (1 / 5) = 3602879701896397 / 2 ^ 54"
proof -
  have "fl64 (1 / 5) =
     of_int (round_even ((1 / 5) / 2 powr of_int (- 3 - 52))) * 2 powr of_int (- 3 - 52)"
    by (rule fl64_binade) (simp_all add: p3)
  also have "\<dots> = 3602879701896397 / 2 ^ 54"
    by (simp add: p3 round_even_def Let_def)
  finally show ?thesis .
qed

lemma sum52: "fl64 (5 + 3602879701896397 / 2 ^ 54) = 5854679515581645 / 2 ^ 50"
proof -
  have "fl64 (5 + 3602879701896397 / 2 ^ 54) =
     of_int (round_even ((5 + 3602879701896397 / 2 ^ 54) / 2 powr of_int (2 - 52)))
       * 2 powr of_int (2 - 52)"
    by (rule fl64_binade) (simp_all add: p2)
  also have "\<dots> = 5854679515581645 / 2 ^ 50"
    by (simp add: p2 round_even_def Let_def)
  finally show ?thesis .
qed

lemma is_f64_ads: "is_f64 (8106479329266893 / 2 ^ 52)"
  unfolding is_f64_def fl64_ads by simp

lemma is_f64_zero: "is_f64 0"
  by (simp add: is_f64_def fl64_zero)

lemma top_f64_five:
  "top_loop_f64 [(0, 0, 5)] (8106479329266893 / 2 ^ 52) (3602879701896397 / 2 ^ 54) [0]
     = Inr [(top_label 0, (0, 0, 7656119366529843 / 2 ^ 50))]"
proof -
  define a :: real where "a = 8106479329266893 / 2 ^ 52"
  define m :: real where "m = 3602879701896397 / 2 ^ 54"
  have sm: "smul_f64 normal a = Inr (0, 0, a)"
    unfolding a_def by (rule smul_normal_f64 [OF is_f64_ads])
  have s: "f64 (5 + a) = Inr (7656119366529843 / 2 ^ 50)"
    unfolding f64_def a_def sum68 by simp
  have g: "f64 (5 + m) = Inr (5854679515581645 / 2 ^ 50)"
    unfolding f64_def m_def sum52 by simp
  have v: "vadd_f64 (0, 0, 5) (0, 0, a) = Inr (0, 0, 7656119366529843 / 2 ^ 50)"
    by (simp add: vadd_f64_def f64_zero s)
  have "top_loop_f64 [(0, 0, 5)] a m [0] = Inr [(top_label 0, (0, 0, 7656119366529843 / 2 ^ 50))]"
    by (simp add: getitem_def sm v g)
  then show ?thesis unfolding a_def m_def .
qed

text \<open>
  The equality \<open>site.z - pos[i].z = ads_dist\<close> itself fails: for one atom at height
  \<open>5.0\<close> with the default \<open>ads_dist = 1.8\<close> and \<open>margin = 0.2\<close> (their float64 values),
  the Top site is kept and lies \<open>1.8 - 2\<^sup>-\<^sup>5\<^sup>2\<close> above the atom.
\<close>

theorem top_site_height_f64_counterexample:
  "fl64 (9 / 5) = 8106479329266893 / 2 ^ 52
   \<and> fl64 (1 / 5) = 3602879701896397 / 2 ^ 54
   \<and> top_loop_f64 [(0, 0, 5)] (8106479329266893 / 2 ^ 52) (3602879701896397 / 2 ^ 54) [0]
       = Inr [(top_label 0, (0, 0, 7656119366529843 / 2 ^ 50))]
   \<and> 7656119366529843 / 2 ^ 50 - 5 \<noteq> (8106479329266893 / 2 ^ 52 :: real)
   \<and> 7656119366529843 / 2 ^ 50 - 5 = (8106479329266892 / 2 ^ 52 :: real)"
proof (intro conjI)
  show "fl64 (9 / 5) = 8106479329266893 / 2 ^ 52" by (rule fl64_nine_fifths)
  show "fl64 (1 / 5) = 3602879701896397 / 2 ^ 54" by (rule fl64_one_fifth)
  show "top_loop_f64 [(0, 0, 5)] (8106479329266893 / 2 ^ 52) (3602879701896397 / 2 ^ 54) [0]
       = Inr [(top_label 0, (0, 0, 7656119366529843 / 2 ^ 50))]" by (rule top_f64_five)
  show "7656119366529843 / 2 ^ 50 - 5 \<noteq> (8106479329266893 / 2 ^ 52 :: real)" by simp
  show "7656119366529843 / 2 ^ 50 - 5 = (8106479329266892 / 2 ^ 52 :: real)" by simp
qed

theorem top_site_height_law_f64_witness:
  "\<exists>p. getitem [(0, 0, 5)] 0 = Inr p \<and> vx (0, 0, 7656119366529843 / 2 ^ 50 :: real) = vx p
      \<and> vy (0, 0, 7656119366529843 / 2 ^ 50 :: real) = vy p
      \<and> vz (0, 0, 7656119366529843 / 2 ^ 50) = fl64 (vz p + 8106479329266893 / 2 ^ 52)"
proof -
  have mem: "(top_label 0, (0, 0, 7656119366529843 / 2 ^ 50)) \<in>
       set [(top_label 0, (0, 0, 7656119366529843 / 2 ^ 50 :: real))]" by simp
  have fl: "\<forall>p \<in> set [(0, 0, 5 :: real)]. is_f64 (vx p) \<and> is_f64 (vy p)"
    by (simp add: is_f64_zero)
  from top_site_height_law_f64 [OF top_f64_five mem is_f64_ads fl]
  show ?thesis by blast
qed

subsection \<open>Configuration values\<close>

lemma getitem_in_range:
  "- int (length a) \<le> i \<Longrightarrow> i < int (length a) \<Longrightarrow> \<exists>x. getitem a i = Inr x"
  by (simp add: getitem_def)

lemma top_loop_total:
  "\<forall>i \<in> set surf. - int (length pos) \<le> i \<and> i < int (length pos) \<Longrightarrow>
   \<exists>sites. top_loop pos ads_dist margin surf = Inr sites"
proof (induction surf)
  case Nil
  then show ?case by simp
next
  case (Cons idx rest)
  then obtain p where p: "getitem pos idx = Inr p" using getitem_in_range [of pos idx] by auto
  from Cons obtain rs where rs: "top_loop pos ads_dist margin rest = Inr rs" by auto
  show ?case by (simp add: p rs Let_def)
qed

lemma bridge_inner_total:
  assumes "- int (length (get_positions slab)) \<le> idx1" "idx1 < int (length (get_positions slab))"
  shows "\<forall>i \<in> set rest. - int (length (get_positions slab)) \<le> i \<and> i < int (length (get_positions slab)) \<Longrightarrow>
   \<exists>sites. bridge_inner find_mic slab ads_dist dist_thr margin idx1 rest = Inr sites"
proof (induction rest)
  case Nil
  then show ?case by simp
next
  case (Cons idx2 rest)
  obtain p1 where p1: "getitem (get_positions slab) idx1 = Inr p1"
    using getitem_in_range [OF assms] by auto
  from Cons.prems obtain p2 where p2: "getitem (get_positions slab) idx2 = Inr p2"
    using getitem_in_range [of "get_positions slab" idx2] by auto
  from Cons obtain rs where
    rs: "bridge_inner find_mic slab ads_dist dist_thr margin idx1 rest = Inr rs" by auto
  show ?case by (simp add: p1 p2 rs Let_def split: prod.split)
qed

lemma bridge_loop_total:
  "\<forall>i \<in> set surf. - int (length (get_positions slab)) \<le> i \<and> i < int (length (get_positions slab)) \<Longrightarrow>
   \<exists>sites. bridge_loop find_mic slab ads_dist dist_thr margin surf = Inr sites"
proof (induction surf)
  case Nil
  then show ?case by simp
next
  case (Cons idx1 rest)
  from Cons.prems obtain here where
    h: "bridge_inner find_mic slab ads_dist dist_thr margin idx1 rest = Inr here"
    using bridge_inner_total [of slab idx1 rest find_mic ads_dist dist_thr margin] by auto
  from Cons obtain rs where
    rs: "bridge_loop find_mic slab ads_dist dist_thr margin rest = Inr rs" by auto
  show ?case by (simp add: h rs)
qed

lemma hollow_k_total:
  assumes "- int (length (get_positions slab)) \<le> idx1" "idx1 < int (length (get_positions slab))"
    and "- int (length (get_positions slab)) \<le> idx2" "idx2 < int (length (get_positions slab))"
  shows "\<forall>i \<in> set rest. - int (length (get_positions slab)) \<le> i \<and> i < int (length (get_positions slab)) \<Longrightarrow>
   \<exists>sites. hollow_k find_mic slab ads_dist dist_thr margin idx1 idx2 rest = Inr sites"
proof (induction rest)
  case Nil
  then show ?case by simp
next
  case (Cons idx3 rest)
  obtain p1 where p1: "getitem (get_positions slab) idx1 = Inr p1"
    using getitem_in_range [OF assms(1,2)] by auto
  obtain p2 where p2: "getitem (get_positions slab) idx2 = Inr p2"
    using getitem_in_range [OF assms(3,4)] by auto
  from Cons.prems obtain p3 where p3: "getitem (get_positions slab) idx3 = Inr p3"
    using getitem_in_range [of "get_positions slab" idx3] by auto
  from Cons obtain rs where
    rs: "hollow_k find_mic slab ads_dist dist_thr margin idx1 idx2 rest = Inr rs" by auto
  show ?case by (simp add: p1 p2 p3 rs Let_def split: prod.split)
qed

lemma hollow_j_total:
  assumes "- int (length (get_positions slab)) \<le> idx1" "idx1 < int (length (get_positions slab))"
  shows "\<forall>i \<in> set rest. - int (length (get_positions slab)) \<le> i \<and> i < int (length (get_positions slab)) \<Longrightarrow>
   \<exists>sites. hollow_j find_mic slab ads_dist dist_thr margin idx1 rest = Inr sites"
proof (induction rest)
  case Nil
  then show ?case by simp
next
  case (Cons idx2 rest)
  from Cons.prems obtain here where
    h: "hollow_k find_mic slab ads_dist dist_thr margin idx1 idx2 rest = Inr here"
    using hollow_k_total [OF assms, of idx2 rest find_mic ads_dist dist_thr margin] by auto
  from Cons obtain rs where
    rs: "hollow_j find_mic slab ads_dist dist_thr margin idx1 rest = Inr rs" by auto
  show ?case by (simp add: h rs)
qed

lemma hollow_i_total:
  "\<forall>i \<in> set surf. - int (length (get_positions slab)) \<le> i \<and> i < int (length (get_positions slab)) \<Longrightarrow>
   \<exists>sites. hollow_i find_mic slab ads_dist dist_thr margin surf = Inr sites"
proof (induction surf)
  case Nil
  then show ?case by simp
next
  case (Cons idx1 rest)
  from Cons.prems obtain here where
    h: "hollow_j find_mic slab ads_dist dist_thr margin idx1 rest = Inr here"
    using hollow_j_total [of slab idx1 rest find_mic ads_dist dist_thr margin] by auto
  from Cons obtain rs where
    rs: "hollow_i find_mic slab ads_dist dist_thr margin rest = Inr rs" by auto
  show ?case by (simp add: h rs)
qed

text \<open>
  Claim C2 (Invalid configuration), as the code has it. A percentile outside \<open>[0, 100]\<close>
  makes the surface selection raise numpy's \<open>ValueError\<close> before anything is logged or
  selected. \<open>ads_dist\<close>, \<open>dist_thr\<close> and \<open>margin\<close> are not checked: for any values of
  them the site generation returns a list whenever the surface indices are in range.
\<close>

theorem configuration_not_validated:
  "(q < 0 \<or> 100 < q \<longrightarrow>
      identify_surface_atoms_via_hull convex_hull slab q = ([], Inl ValueError))
   \<and> ((\<forall>i \<in> set surface_atoms. - int (length (atom_list slab)) \<le> i
                                  \<and> i < int (length (atom_list slab))) \<longrightarrow>
      (\<exists>sites. generate_adsorption_sites find_mic slab surface_atoms ads_dist dist_thr margin
                 = ([(INFO, SitesGenerated (length sites))], Inr sites)))"
proof (intro conjI impI)
  assume "q < 0 \<or> 100 < q"
  then have "percentile (map vz (get_positions slab)) q = Inl ValueError"
    by (auto simp: percentile_def)
  then show "identify_surface_atoms_via_hull convex_hull slab q = ([], Inl ValueError)"
    by (rule identify_percentile_error)
next
  assume "\<forall>i \<in> set surface_atoms. - int (length (atom_list slab)) \<le> i
                                  \<and> i < int (length (atom_list slab))"
  then have v: "\<forall>i \<in> set surface_atoms. - int (length (get_positions slab)) \<le> i
                                  \<and> i < int (length (get_positions slab))"
    by (simp add: get_positions_def)
  from top_loop_total [OF v] obtain t where
    t: "top_loop (get_positions slab) ads_dist margin surface_atoms = Inr t" by blast
  from bridge_loop_total [OF v] obtain b where
    b: "bridge_loop find_mic slab ads_dist dist_thr margin surface_atoms = Inr b" by blast
  from hollow_i_total [OF v] obtain h where
    h: "hollow_i find_mic slab ads_dist dist_thr margin surface_atoms = Inr h" by blast
  show "\<exists>sites. generate_adsorption_sites find_mic slab surface_atoms ads_dist dist_thr margin
                 = ([(INFO, SitesGenerated (length sites))], Inr sites)"
    by (simp add: generate_adsorption_sites_def t b h Let_def)
qed

text \<open>
  With \<open>ads_dist = -1\<close>, \<open>dist_thr = -3\<close> and \<open>margin = -5\<close> no error is raised: a Top
  site is returned, one unit below its atom.
\<close>

theorem invalid_configuration_counterexample:
  "generate_adsorption_sites find_mic_free slab_line [0] (- 1) (- 3) (- 5)
     = ([(INFO, SitesGenerated 1)], Inr [(top_label 0, (0, 0, - 1))])"
  by (simp add: generate_adsorption_sites_def get_positions_def getitem_def Let_def normal_def
        slab_line_def)

theorem configuration_not_validated_witness:
  "identify_surface_atoms_via_hull hull_convex_position slab_square 101 = ([], Inl ValueError)
   \<and> (\<exists>sites. generate_adsorption_sites find_mic_free slab_square [1, 2] 0 (- 1) (- 1 / 5)
                 = ([(INFO, SitesGenerated (length sites))], Inr sites))"
proof -
  have r: "\<forall>i \<in> set [1, 2]. - int (length (atom_list slab_square)) \<le> i
                                  \<and> i < int (length (atom_list slab_square))"
    by (simp add: slab_square_def)
  have q: "(101::real) < 0 \<or> 100 < (101::real)" by simp
  from configuration_not_validated [of 101 hull_convex_position slab_square "[1, 2]"
         find_mic_free 0 "- 1" "- 1 / 5"] r q
  show ?thesis by blast
qed

subsection \<open>The empty-surface branch of main\<close>








subsection \<open>Placing the adsorbate\<close>

text \<open>
  Claim C9 (placing the adsorbate). For an element symbol that ASE knows and a slab in the
  store, the call raises nothing; the structure it builds (the new object, which it hands
  to the writer; the Python function itself returns \<open>None\<close>) is the input structure with
  exactly one atom appended, of the given element at the given position, with the same
  cell and periodicity; and the input object and every other object of the store are unchanged.
\<close>

theorem place_adsorbate_frame:
  assumes "atomic_numbers ads \<noteq> None" and "slab < next_ref w"
  shows "\<exists>w'. add_adsorbate_and_write atomic_numbers w slab label site_position base out_dir ads
                = (w', Inr ())
           \<and> heap w' (next_ref w) =
               (heap w slab)\<lparr>atom_list := atom_list (heap w slab)
                                  @ [\<lparr>symbol = ads, position = site_position\<rparr>]\<rparr>
           \<and> cell (heap w' (next_ref w)) = cell (heap w slab)
           \<and> pbc (heap w' (next_ref w)) = pbc (heap w slab)
           \<and> files w' = files w @ [(os_path_join out_dir (base @ ''_'' @ label @ ''.vasp''),
                                      heap w' (next_ref w))]
           \<and> heap w' slab = heap w slab
           \<and> (\<forall>r < next_ref w. heap w' r = heap w r)"
proof -
  from assms(1) obtain number where n: "atomic_numbers ads = Some number" by auto
  show ?thesis using assms(2) by (simp add: add_adsorbate_and_write_def n Let_def)
qed

theorem place_adsorbate_frame_witness:
  "\<exists>w'. add_adsorbate_and_write example_numbers example_world 0 ''Top_0'' (1 / 2, 0, 9 / 5)
            ''slab'' ''out'' ''H'' = (w', Inr ())
     \<and> atom_list (heap w' 1) = [\<lparr>symbol = ''Pt'', position = (1 / 2, 0, 0)\<rparr>,
                                 \<lparr>symbol = ''Pt'', position = (19 / 2, 0, 0)\<rparr>,
                                 \<lparr>symbol = ''H'', position = (1 / 2, 0, 9 / 5)\<rparr>]
     \<and> map fst (files w') = [''out/slab_Top_0.vasp'']
     \<and> heap w' 0 = slab_straddle"
proof -
  have a: "example_numbers ''H'' \<noteq> None" by (simp add: example_numbers_def)
  have b: "0 < next_ref example_world" by (simp add: example_world_def)
  from place_adsorbate_frame [where atomic_numbers = example_numbers and ads = "''H''"
         and slab = 0 and w = example_world and label = "''Top_0''"
         and site_position = "(1 / 2, 0, 9 / 5)" and base = "''slab''" and out_dir = "''out''",
         OF a b]
  obtain w' where
    "add_adsorbate_and_write example_numbers example_world 0 ''Top_0'' (1 / 2, 0, 9 / 5)
            ''slab'' ''out'' ''H'' = (w', Inr ())"
    and "heap w' (next_ref example_world) =
               (heap example_world 0)\<lparr>atom_list := atom_list (heap example_world 0)
                                  @ [\<lparr>symbol = ''H'', position = (1 / 2, 0, 9 / 5)\<rparr>]\<rparr>"
    and "files w' = files example_world @ [(os_path_join ''out'' (''slab'' @ ''_'' @ ''Top_0'' @ ''.vasp''),
                                      heap w' (next_ref example_world))]"
    and "heap w' 0 = heap example_world 0"
    by blast
  then show ?thesis
    by (intro exI [of _ w']) (simp add: example_world_def slab_straddle_def os_path_join_def)
qed

subsection \<open>Alignment\<close>

lemma phi_bounds: "0 < pi * pi / 360" "pi * pi / 360 < 1 / 20"
proof -
  show "0 < pi * pi / 360" by simp
  have "pi * pi < 4 * 4" using pi_less_4 pi_gt_zero by (intro mult_strict_mono) simp_all
  then show "pi * pi / 360 < 1 / 20" by simp
qed

lemma side_normal: "cell_normal slab_side = (1, 0, 0)"
  by (simp add: cell_normal_def get_cell_def slab_side_def)

lemma side_rotate:
  "rotate_atoms example_mass slab_side (pi / 2) (0, - 1, 0) =
     Inr (slab_side\<lparr>cell := ((0, 1, 0), (- sin (pi * pi / 360), 0, cos (pi * pi / 360)), (cos (pi * pi / 360), 0, sin (pi * pi / 360)))\<rparr>)"
  by (simp add: rotate_atoms_def norm3_def Let_def total_mass_def slab_side_def example_mass_def
      get_center_of_mass_def rotate_vec_def get_cell_def)

lemma side_align:
  "align_slab_to_z example_mass slab_side =
     ([(INFO, Rotated 90)],
      Inr (slab_side\<lparr>cell := ((0, 1, 0), (- sin (pi * pi / 360), 0, cos (pi * pi / 360)), (cos (pi * pi / 360), 0, sin (pi * pi / 360)))\<rparr>))"
proof -
  have c: "get_cell slab_side = ((0, 1, 0), (0, 0, 1), (1, 0, 0))"
    by (simp add: get_cell_def slab_side_def)
  have big: "(1::real) / 10 ^ 6 < pi / 2" using pi_ge_two by simp
  show ?thesis
    unfolding align_slab_to_z_def c
    using big by (simp add: norm3_def Let_def clip_def side_rotate)
qed

lemma phi_sin: "0 < sin (pi * pi / 360)" "sin (pi * pi / 360) < 1 / 20"
proof -
  have lt: "pi * pi / 360 < pi" using phi_bounds(2) pi_ge_two by linarith
  show "0 < sin (pi * pi / 360)" using phi_bounds(1) lt by (rule sin_gt_zero)
  have "sin (pi * pi / 360) \<le> pi * pi / 360" using phi_bounds(1) by (intro sin_x_le_x) simp
  then show "sin (pi * pi / 360) < 1 / 20" using phi_bounds(2) by linarith
qed

lemma phi_cos: "0 < cos (pi * pi / 360)"
proof -
  have "pi * pi / 360 < pi / 2" using phi_bounds(2) pi_ge_two by linarith
  then show ?thesis using phi_bounds(1) by (intro cos_gt_zero)
qed

lemma aligned_normal:
  "cell_normal slab_side_aligned = (cos (pi * pi / 360), 0, sin (pi * pi / 360))"
  by (simp add: cell_normal_def get_cell_def slab_side_aligned_def)

text \<open>
  Claim C1 (alignment post-condition), evaluated on the code. For \<open>slab_side\<close>, whose
  normal \<open>a \<times> b\<close> is along \<open>+x\<close>, the source computes the angle \<open>pi / 2\<close> in radians
  and passes it to \<open>Atoms.rotate\<close>, which takes degrees. The slab is turned by
  \<open>pi\<^sup>2 / 360\<close> radians (about 1.57 degrees, though the log record says 90), and the
  normal of the returned cell is a unit vector whose component along \<open>+z\<close> is below
  \<open>1 / 20\<close>: it is not parallel to \<open>+z\<close>.
\<close>

theorem align_side_normal_not_along_z:
  "snd (align_slab_to_z example_mass slab_side) = Inr slab_side_aligned
   \<and> cell_normal slab_side = (1, 0, 0)
   \<and> cell_normal slab_side_aligned = (cos (pi * pi / 360), 0, sin (pi * pi / 360))
   \<and> norm3 (cell_normal slab_side_aligned) = 1
   \<and> dot (cell_normal slab_side_aligned) (0, 0, 1) < 1 / 20"
  using phi_sin(2)
  by (simp add: side_align slab_side_aligned_def [symmetric] side_normal aligned_normal norm3_def)

lemma arccos_sin_phi: "arccos (sin (pi * pi / 360)) = pi / 2 - pi * pi / 360"
proof -
  have "sin (pi * pi / 360) = cos (pi / 2 - pi * pi / 360)"
    using sin_cos_eq [of "pi * pi / 360"] by simp
  moreover have "0 \<le> pi / 2 - pi * pi / 360" using phi_bounds(2) pi_ge_two by linarith
  moreover have "pi / 2 - pi * pi / 360 \<le> pi" using phi_bounds(1) pi_gt_zero by linarith
  ultimately show ?thesis by (simp add: arccos_cos)
qed

lemma aligned_rotate:
  "rotate_atoms example_mass slab_side_aligned (pi / 2 - pi * pi / 360) (0, - 1, 0) =
     Inr (slab_side\<lparr>cell := ((0, 1, 0),
        (- (cos psi * sin (pi * pi / 360)) - sin psi * cos (pi * pi / 360), 0,
         cos psi * cos (pi * pi / 360) - sin psi * sin (pi * pi / 360)),
        (cos psi * cos (pi * pi / 360) - sin psi * sin (pi * pi / 360), 0,
         cos psi * sin (pi * pi / 360) + sin psi * cos (pi * pi / 360)))\<rparr>)"
  by (simp add: rotate_atoms_def norm3_def Let_def total_mass_def slab_side_def example_mass_def
      get_center_of_mass_def rotate_vec_def get_cell_def slab_side_aligned_def psi_def)

lemma aligned_align:
  "snd (align_slab_to_z example_mass slab_side_aligned) = Inr slab_side_twice"
proof -
  let ?c = "cos (pi * pi / 360)" and ?s = "sin (pi * pi / 360)"
  have cell: "get_cell slab_side_aligned = ((0, 1, 0), (- ?s, 0, ?c), (?c, 0, ?s))"
    by (simp add: get_cell_def slab_side_aligned_def)
  have n0: "cross (0, 1, 0) (- ?s, 0, ?c) = (?c, 0, ?s)" by simp
  have nn: "norm3 (?c, 0, ?s) = 1" by (simp add: norm3_def)
  have n1: "sdiv (?c, 0, ?s) 1 = (?c, 0, ?s)" by simp
  have cl: "clip ?s (- 1) 1 = ?s" using phi_sin by (simp add: clip_def)
  have big: "(1::real) / 10 ^ 6 < pi / 2 - pi * pi / 360"
    using phi_bounds(2) pi_ge_two by simp
  have ax: "cross (?c, 0, ?s) (0, 0, 1) = (0, - ?c, 0)" by simp
  have an: "norm3 (0, - ?c, 0) = ?c" using phi_cos by (simp add: norm3_def)
  have ad: "sdiv (0, - ?c, 0) ?c = (0, - 1, 0)" using phi_cos by simp
  have rot: "rotate_atoms example_mass slab_side_aligned (pi / 2 - pi * pi / 360) (0, - 1, 0)
               = Inr slab_side_twice"
    unfolding aligned_rotate slab_side_twice_def
    by (simp add: sin_add cos_add algebra_simps)
  show ?thesis
    unfolding align_slab_to_z_def cell
    using phi_sin(1) phi_cos big
    by (simp add: n0 nn n1 cl arccos_sin_phi ax an ad rot Let_def del: cross.simps sdiv.simps)
qed

lemma psi_bounds: "1 / 100 < psi" "psi < 1 / 20"
proof -
  have a: "19 / 20 < pi / 2 - pi * pi / 360" using phi_bounds(2) pi_ge_two by linarith
  have b: "1 / 90 \<le> pi / 180" using pi_ge_two by simp
  have "(19 / 20) * (1 / 90) < (pi / 2 - pi * pi / 360) * (pi / 180)"
    using a b by (intro mult_less_le_imp_less) simp_all
  then show "1 / 100 < psi" by (simp add: psi_def)
  have c: "pi / 2 - pi * pi / 360 < 2" using phi_bounds(1) pi_less_4 by linarith
  have d: "pi / 180 < 1 / 45" using pi_less_4 by simp
  have e: "0 < pi / 2 - pi * pi / 360" using a by linarith
  have "(pi / 2 - pi * pi / 360) * (pi / 180) < 2 * (1 / 45)"
    using c d e by (intro mult_strict_mono) simp_all
  then show "psi < 1 / 20" by (simp add: psi_def)
qed

lemma sin_lower: "0 \<le> (x::real) \<Longrightarrow> x - x ^ 3 / 6 \<le> sin x"
proof -
  assume x: "0 \<le> x"
  have "\<bar>sin x - (\<Sum>m<3. sin_coeff m * x ^ m)\<bar> \<le> inverse (fact 3) * \<bar>x\<bar> ^ 3"
    by (rule Maclaurin_sin_bound)
  moreover have "(\<Sum>m<3. sin_coeff m * x ^ m) = x"
  proof -
    have c1: "sin_coeff (Suc 0) = 1" by (simp add: sin_coeff_def)
    have c2: "sin_coeff (Suc (Suc 0)) = 0" by (simp add: sin_coeff_def)
    have "(\<Sum>m<Suc (Suc (Suc 0)). sin_coeff m * x ^ m) = x"
      unfolding sum.lessThan_Suc by (simp add: c1 c2)
    then show ?thesis by (simp only: numeral_3_eq_3)
  qed
  moreover have "inverse (fact 3) * \<bar>x\<bar> ^ 3 = x ^ 3 / 6"
  proof -
    have "fact 3 = (6::real)" by (simp add: fact_numeral)
    moreover have "\<bar>x\<bar> = x" using x by simp
    ultimately show ?thesis by simp
  qed
  ultimately show ?thesis by linarith
qed

lemma twice_gap: "sin (pi * pi / 360 + psi) - sin (pi * pi / 360) > 1 / 200"
proof -
  let ?x = "pi * pi / 360 + psi"
  have x0: "0 \<le> ?x" using phi_bounds(1) psi_bounds(1) by linarith
  have x1: "?x < 1 / 10" using phi_bounds(2) psi_bounds(2) by linarith
  have "?x ^ 3 \<le> (1 / 10) ^ 3" using x0 x1 by (intro power_mono) simp_all
  moreover have "(1 / 10 :: real) ^ 3 = 1 / 1000" by (simp add: power3_eq_cube)
  ultimately have "?x ^ 3 \<le> 1 / 1000" by simp
  then have cube: "?x ^ 3 / 6 \<le> 1 / 6000" by linarith
  have lo: "?x - ?x ^ 3 / 6 \<le> sin ?x" using x0 by (rule sin_lower)
  have up: "sin (pi * pi / 360) \<le> pi * pi / 360"
    using phi_bounds(1) by (intro sin_x_le_x) simp
  show ?thesis using lo up cube psi_bounds(1) by linarith
qed

text \<open>
  Claim C8 (idempotence), evaluated on the code. Aligning the aligned \<open>slab_side\<close> once
  more turns it again: the second result differs from the first, and the z component of its
  unit cell normal is larger by more than \<open>1 / 200\<close>.
\<close>

theorem align_twice_rotates_again:
  "snd (align_slab_to_z example_mass slab_side) = Inr slab_side_aligned
   \<and> snd (align_slab_to_z example_mass slab_side_aligned) = Inr slab_side_twice
   \<and> slab_side_twice \<noteq> slab_side_aligned
   \<and> vz (cell_normal slab_side_twice) - vz (cell_normal slab_side_aligned) > 1 / 200"
proof -
  have n2: "cell_normal slab_side_twice
              = (cos (pi * pi / 360 + psi), 0, sin (pi * pi / 360 + psi))"
    by (simp add: cell_normal_def get_cell_def slab_side_twice_def)
  have gap: "vz (cell_normal slab_side_twice) - vz (cell_normal slab_side_aligned) > 1 / 200"
    using twice_gap by (simp add: n2 aligned_normal)
  then have "cell_normal slab_side_twice \<noteq> cell_normal slab_side_aligned" by auto
  then have ne: "slab_side_twice \<noteq> slab_side_aligned" by auto
  show ?thesis
    using gap ne aligned_align by (simp add: side_align slab_side_aligned_def [symmetric])
qed

end
